theory Spec2Isabelle
  imports Main "HOL-Library.Word" "HOL-Library.Log_Nat"
begin

section \<open>The look-aside balancer of the proxy (internal/proxy/look\_aside\_balancer.go)\<close>

subsection \<open>Machine numbers\<close>

text \<open>
  Node identifiers, timestamps in milliseconds, request costs and the in-flight counters are
  Go \<open>int64\<close> values: 64-bit words whose \<open>+\<close> and \<open>-\<close> wrap around and which are
  compared through \<open>sint\<close>.
\<close>

type_synonym int64 = "64 word"

text \<open>
  Every \<open>float64\<close> that the balancer computes is obtained from \<open>int64\<close> values by
  conversion, \<open>+\<close>, \<open>-\<close>, \<open>*\<close> and \<open>math.Pow(_, 3.0)\<close>. Such a value is always a whole
  number of magnitude far below \<open>math.MaxFloat64\<close>, so a \<open>float64\<close> is represented here
  by the integer it denotes, and every operation rounds its exact result to a significand of
  53 bits, to nearest, ties to even, as IEEE 754 binary64 does. Neither NaN nor an infinity
  can arise, and the comparison \<open><\<close> of two such values is the comparison of the integers.
  Each operation is rounded on its own, as on amd64, where the Go compiler does not fuse a
  multiplication with the addition that follows it.

  \<open>roundHalfEven u a\<close> is the multiple of the unit \<open>u\<close> nearest to \<open>a\<close>, the even multiple
  at a tie. A magnitude of \<open>n > 53\<close> bits is rounded to the unit \<open>2 ^ (n - 53)\<close>.
\<close>

type_synonym float64 = int

definition roundHalfEven :: "int \<Rightarrow> int \<Rightarrow> int" where
  "roundHalfEven u a =
     (let q = a div u; r = a mod u
      in if u < 2 * r \<or> (2 * r = u \<and> odd q) then (q + 1) * u else q * u)"

definition round53 :: "int \<Rightarrow> float64" where
  "round53 x =
     (let a = \<bar>x\<bar> in
      if a < 2 ^ 53 then x
      else sgn x * roundHalfEven (2 ^ nat (bitlen a - 53)) a)"

definition MaxFloat64 :: float64 where
  "MaxFloat64 = (2 ^ 53 - 1) * 2 ^ 971"

definition float64_of_int64 :: "int64 \<Rightarrow> float64" where
  "float64_of_int64 w = round53 (sint w)"

definition f64_add :: "float64 \<Rightarrow> float64 \<Rightarrow> float64" where
  "f64_add x y = round53 (x + y)"

definition f64_sub :: "float64 \<Rightarrow> float64 \<Rightarrow> float64" where
  "f64_sub x y = round53 (x - y)"

definition f64_mul :: "float64 \<Rightarrow> float64 \<Rightarrow> float64" where
  "f64_mul x y = round53 (x * y)"

text \<open>
  \<open>math.Pow(x, 3.0)\<close>: for the exponent 3 the Go library multiplies the significand of
  \<open>x\<close> by the rounded square of that significand and scales the product by a power of two,
  which is \<open>x * (x * x)\<close> with each product rounded.
\<close>

definition Pow_3 :: "float64 \<Rightarrow> float64" where
  "Pow_3 x = f64_mul x (f64_mul x x)"

subsection \<open>State\<close>

text \<open>
  Modelled from the spec: the message \<open>internalpb.CostAggregation\<close> is declared outside
  the source files at hand. Its three fields are integers: \<open>calculateScore\<close> converts each
  of them with \<open>float64(_)\<close>, and ``NQ and times are widened from their native integer
  representations''. They are taken to be \<open>int64\<close>, as \<open>TotalNQ\<close> is said to be.
\<close>

record CostAggregation =
  ResponseTime :: int64
  ServiceTime :: int64
  TotalNQ :: int64

text \<open>
  The balancer's four concurrent containers. \<open>metricsMap\<close> stores pointers, so an entry may
  hold \<open>nil\<close> (\<open>Some None\<close>). The client manager is an external collaborator: what its calls
  return is an argument of the health probe below. The shutdown channel, the wait group and
  the logger take no part in what is proved here.
\<close>

record LookAsideBalancer =
  metricsMap :: "int64 \<rightharpoonup> CostAggregation option"
  metricsUpdateTs :: "int64 \<rightharpoonup> int64"
  executingTaskTotalNQ :: "int64 \<rightharpoonup> int64"
  unreachableQueryNodes :: "int64 set"

datatype error =
  ServiceUnavailable string
  | NilPointerDereference

definition NewLookAsideBalancer :: LookAsideBalancer where
  "NewLookAsideBalancer =
     \<lparr>metricsMap = Map.empty, metricsUpdateTs = Map.empty,
      executingTaskTotalNQ = Map.empty, unreachableQueryNodes = {}\<rparr>"

text \<open>\<open>CostMetricsExpireTime.Milliseconds()\<close> for the value \<open>1000 * time.Millisecond\<close>.\<close>

definition CostMetricsExpireTime_Milliseconds :: int64 where
  "CostMetricsExpireTime_Milliseconds = 1000"

subsection \<open>Scoring\<close>

text \<open>
  \<open>isNodeCostMetricsTooOld\<close>; \<open>now\<close> is the reading of \<open>time.Now().UnixMilli()\<close>.
\<close>

definition isNodeCostMetricsTooOld :: "LookAsideBalancer \<Rightarrow> int64 \<Rightarrow> int64 \<Rightarrow> bool" where
  "isNodeCostMetricsTooOld b now node =
     (case metricsUpdateTs b node of
        None \<Rightarrow> False
      | Some lastUpdateTs \<Rightarrow>
          if lastUpdateTs = 0 then False
          else sint CostMetricsExpireTime_Milliseconds < sint (now - lastUpdateTs))"

text \<open>The two formulas of \<open>calculateScore\<close>: its first \<open>return\<close> and its last lines.\<close>

definition loadOnlyScore :: "int64 \<Rightarrow> float64" where
  "loadOnlyScore executingNQ = Pow_3 (float64_of_int64 (1 + executingNQ))"

definition executeSpeed :: "CostAggregation \<Rightarrow> float64" where
  "executeSpeed cost =
     f64_sub (float64_of_int64 (ResponseTime cost)) (float64_of_int64 (ServiceTime cost))"

definition workload :: "CostAggregation \<Rightarrow> int64 \<Rightarrow> float64" where
  "workload cost executingNQ =
     f64_mul (Pow_3 (float64_of_int64 (1 + TotalNQ cost + executingNQ)))
             (float64_of_int64 (ServiceTime cost))"

definition calculateScore ::
  "LookAsideBalancer \<Rightarrow> int64 \<Rightarrow> int64 \<Rightarrow> CostAggregation option \<Rightarrow> int64 \<Rightarrow> float64" where
  "calculateScore b now node cost executingNQ =
     (case cost of
        None \<Rightarrow> loadOnlyScore executingNQ
      | Some c \<Rightarrow>
          if ResponseTime c = 0 \<or> ServiceTime c = 0 then loadOnlyScore executingNQ
          else if executingNQ = 0 \<and> TotalNQ c = 0 \<and> isNodeCostMetricsTooOld b now node then 0
          else if workload c executingNQ < 0 then MaxFloat64
          else f64_add (executeSpeed c) (workload c executingNQ))"

subsection \<open>Selection\<close>

text \<open>
  The loop of \<open>SelectNode\<close> over \<open>availableNodes\<close>, with the pair
  \<open>(targetNode, targetScore)\<close> and the balancer threaded through. The clock is read at most
  once for each candidate; the model takes one reading \<open>now\<close> for the whole call. The gauge
  \<open>ProxyWorkLoadScore\<close> and the log lines are written and never read back; they are left
  out.
\<close>

fun SelectNode_loop ::
  "LookAsideBalancer \<Rightarrow> int64 \<Rightarrow> int64 list \<Rightarrow> int64 \<times> float64 \<Rightarrow>
     (int64 \<times> float64) \<times> LookAsideBalancer" where
  "SelectNode_loop b now [] target = (target, b)"
| "SelectNode_loop b now (node # rest) (targetNode, targetScore) =
     (if node \<in> unreachableQueryNodes b
      then SelectNode_loop b now rest (targetNode, targetScore)
      else
        let cost = (case metricsMap b node of None \<Rightarrow> None | Some c \<Rightarrow> c);
            (executingNQ, b1) =
               (case executingTaskTotalNQ b node of
                  Some v \<Rightarrow> (v, b)
                | None \<Rightarrow> (0, b\<lparr>executingTaskTotalNQ := (executingTaskTotalNQ b)(node \<mapsto> 0)\<rparr>));
            score = calculateScore b1 now node cost executingNQ
        in if targetNode = - 1 \<or> score < targetScore
           then SelectNode_loop b1 now rest (node, score)
           else SelectNode_loop b1 now rest (targetNode, targetScore))"

definition SelectNode ::
  "LookAsideBalancer \<Rightarrow> int64 \<Rightarrow> int64 list \<Rightarrow> int64 \<Rightarrow> (error + int64) \<times> LookAsideBalancer" where
  "SelectNode b now availableNodes cost =
     (case SelectNode_loop b now availableNodes (- 1, MaxFloat64) of
        ((targetNode, targetScore), b') \<Rightarrow>
          if targetNode = - 1
          then (Inl (ServiceUnavailable ''all available nodes are unreachable''), b')
          else
            (case executingTaskTotalNQ b' targetNode of
               None \<Rightarrow> (Inl NilPointerDereference, b')
             | Some totalNQ \<Rightarrow>
                 (Inr targetNode,
                  b'\<lparr>executingTaskTotalNQ :=
                        (executingTaskTotalNQ b')(targetNode \<mapsto> totalNQ + cost)\<rparr>)))"

definition CancelWorkload :: "LookAsideBalancer \<Rightarrow> int64 \<Rightarrow> int64 \<Rightarrow> LookAsideBalancer" where
  "CancelWorkload b node nq =
     (case executingTaskTotalNQ b node of
        Some totalNQ \<Rightarrow> b\<lparr>executingTaskTotalNQ := (executingTaskTotalNQ b)(node \<mapsto> totalNQ - nq)\<rparr>
      | None \<Rightarrow> b)"

definition UpdateCostMetrics ::
  "LookAsideBalancer \<Rightarrow> int64 \<Rightarrow> int64 \<Rightarrow> CostAggregation option \<Rightarrow> LookAsideBalancer" where
  "UpdateCostMetrics b now node cost =
     b\<lparr>metricsMap := (metricsMap b)(node \<mapsto> cost),
       metricsUpdateTs := (metricsUpdateTs b)(node \<mapsto> now)\<rparr>"

subsection \<open>Health probe\<close>

text \<open>
  Modelled from the spec: the enumeration \<open>commonpb.StateCode\<close> is declared outside the
  source files at hand; it includes the value \<open>Healthy\<close>, the only one the probe compares
  with. Its other values are numbered.
\<close>

datatype StateCode = Healthy | OtherStateCode nat

text \<open>
  The function that \<open>checkQueryNodeHealthLoop\<close> submits to the pool for one node. What the
  collaborators answer is the argument \<open>client\<close>: \<open>Inl err\<close> when \<open>GetClient\<close> fails,
  \<open>Inr (Inl err)\<close> when \<open>GetComponentStates\<close> fails, and \<open>Inr (Inr code)\<close> with the state
  code of the reply otherwise (\<open>GetState().GetStateCode()\<close> of the reply). \<open>tnow\<close> is the
  reading of \<open>time.Now().Local().UnixMilli()\<close>. The log lines are not modelled.
\<close>

definition setUnreachable :: "LookAsideBalancer \<Rightarrow> int64 \<Rightarrow> LookAsideBalancer" where
  "setUnreachable b node = b\<lparr>unreachableQueryNodes := insert node (unreachableQueryNodes b)\<rparr>"

definition checkQueryNodeHealth ::
  "LookAsideBalancer \<Rightarrow> int64 \<Rightarrow> string + (string + StateCode) \<Rightarrow> int64 \<Rightarrow> LookAsideBalancer" where
  "checkQueryNodeHealth b node client tnow =
     (case client of
        Inl err \<Rightarrow> setUnreachable b node
      | Inr qn \<Rightarrow>
          (case qn of
             Inl err \<Rightarrow> setUnreachable b node
           | Inr stateCode \<Rightarrow>
               if stateCode \<noteq> Healthy then setUnreachable b node
               else b\<lparr>metricsUpdateTs := (metricsUpdateTs b)(node \<mapsto> tnow),
                      unreachableQueryNodes := unreachableQueryNodes b - {node}\<rparr>))"

subsection \<open>Notions used to state the properties\<close>

text \<open>
  What \<open>executingNQ.Load()\<close> yields for a node once its counter exists: the loop creates a
  missing counter with the value 0 before it reads it.
\<close>

definition inFlight :: "LookAsideBalancer \<Rightarrow> int64 \<Rightarrow> int64" where
  "inFlight b node = (case executingTaskTotalNQ b node of None \<Rightarrow> 0 | Some v \<Rightarrow> v)"

text \<open>
  The score that the body of the loop computes for a candidate: the cached aggregation
  (\<open>nil\<close> when there is none) and the loaded counter, passed to \<open>calculateScore\<close>.
\<close>

definition nodeScore :: "LookAsideBalancer \<Rightarrow> int64 \<Rightarrow> int64 \<Rightarrow> float64" where
  "nodeScore b now node =
     calculateScore b now node
       (case metricsMap b node of None \<Rightarrow> None | Some c \<Rightarrow> c) (inFlight b node)"

text \<open>
  The reduction that the loop performs on \<open>(targetNode, targetScore)\<close>, for a fixed score
  of every node and a fixed set of unreachable nodes.
\<close>

fun pickTarget ::
  "(int64 \<Rightarrow> float64) \<Rightarrow> int64 set \<Rightarrow> int64 list \<Rightarrow> int64 \<times> float64 \<Rightarrow> int64 \<times> float64" where
  "pickTarget sc U [] target = target"
| "pickTarget sc U (node # rest) (targetNode, targetScore) =
     (if node \<in> U then pickTarget sc U rest (targetNode, targetScore)
      else if targetNode = - 1 \<or> sc node < targetScore
           then pickTarget sc U rest (node, sc node)
           else pickTarget sc U rest (targetNode, targetScore))"

text \<open>The ledger once the loop has run: a zero counter for each scored node that had none.\<close>

definition ledgerAfterLoop :: "LookAsideBalancer \<Rightarrow> int64 list \<Rightarrow> (int64 \<rightharpoonup> int64)" where
  "ledgerAfterLoop b nodes =
     (\<lambda>m. if m \<in> set nodes \<and> m \<notin> unreachableQueryNodes b \<and> executingTaskTotalNQ b m = None
          then Some 0 else executingTaskTotalNQ b m)"

text \<open>The last lines of \<open>calculateScore\<close>, reached when neither earlier \<open>return\<close> is taken.\<close>

definition generalScore :: "CostAggregation \<Rightarrow> int64 \<Rightarrow> float64" where
  "generalScore c executingNQ =
     (if workload c executingNQ < 0 then MaxFloat64
      else f64_add (executeSpeed c) (workload c executingNQ))"

subsection \<open>States for the examples\<close>

text \<open>
  Nodes 1 and 2 have reported \<open>{50, 10, 0}\<close> and \<open>{20, 5, 0}\<close> a hundred milliseconds before
  the time 10000, node 5 has two units in flight and no telemetry, node 4 is unreachable.
\<close>

definition exampleBalancer :: LookAsideBalancer where
  "exampleBalancer =
     \<lparr>metricsMap = [1 \<mapsto> Some \<lparr>ResponseTime = 50, ServiceTime = 10, TotalNQ = 0\<rparr>,
                    2 \<mapsto> Some \<lparr>ResponseTime = 20, ServiceTime = 5, TotalNQ = 0\<rparr>],
      metricsUpdateTs = [1 \<mapsto> 9900, 2 \<mapsto> 9900],
      executingTaskTotalNQ = [5 \<mapsto> 2],
      unreachableQueryNodes = {4}\<rparr>"

text \<open>
  Node 7 has reported \<open>{0, 0, 0}\<close> two seconds before the time 10000 and has nothing in
  flight; node 8 has never been observed.
\<close>

definition idleBalancer :: LookAsideBalancer where
  "idleBalancer =
     \<lparr>metricsMap = [7 \<mapsto> Some \<lparr>ResponseTime = 0, ServiceTime = 0, TotalNQ = 0\<rparr>],
      metricsUpdateTs = [7 \<mapsto> 8000],
      executingTaskTotalNQ = [7 \<mapsto> 0],
      unreachableQueryNodes = {}\<rparr>"

text \<open>
  Node 1 has reported \<open>{50, 10, 0}\<close>; node 9 has reported \<open>TotalNQ = 2^62\<close> and
  \<open>ServiceTime = 2^20\<close> with the \<open>ResponseTime\<close> given by the argument; both a hundred
  milliseconds before the time 10000, with nothing in flight.
\<close>

definition overflowBalancer :: "int64 \<Rightarrow> LookAsideBalancer" where
  "overflowBalancer rt =
     \<lparr>metricsMap = [1 \<mapsto> Some \<lparr>ResponseTime = 50, ServiceTime = 10, TotalNQ = 0\<rparr>,
                    9 \<mapsto> Some \<lparr>ResponseTime = rt, ServiceTime = 2 ^ 20, TotalNQ = 2 ^ 62\<rparr>],
      metricsUpdateTs = [1 \<mapsto> 9900, 9 \<mapsto> 9900],
      executingTaskTotalNQ = Map.empty,
      unreachableQueryNodes = {}\<rparr>"

section \<open>Arithmetic of \<open>int64\<close>\<close>

lemma sint64_bounds: "- (2 ^ 63) \<le> sint (w :: int64)" "sint (w :: int64) < 2 ^ 63"
  using sint_ge [of w] sint_lt [of w] by simp_all

lemma sint64_diff:
  "- (2 ^ 63) \<le> sint a - sint b \<Longrightarrow> sint a - sint b < 2 ^ 63 \<Longrightarrow>
   sint (a - b :: int64) = sint a - sint b"
  by (simp add: sint_word_diff signed_take_bit_int_eq_self)

lemma sint64_add:
  "- (2 ^ 63) \<le> sint a + sint b \<Longrightarrow> sint a + sint b < 2 ^ 63 \<Longrightarrow>
   sint (a + b :: int64) = sint a + sint b"
  by (simp add: sint_word_add signed_take_bit_int_eq_self)

lemma sint64_sum:
  assumes "- (2 ^ 63) \<le> 1 + sint n + sint k" and "1 + sint n + sint k < 2 ^ 63"
  shows "sint (1 + n + k :: int64) = 1 + sint n + sint k"
proof -
  have "1 + n + k = word_of_int (1 + sint n + sint k)" by simp
  then have "sint (1 + n + k) = signed_take_bit 63 (1 + sint n + sint k)"
    by (simp only: sint_sbintrunc') simp
  with assms show ?thesis by (simp add: signed_take_bit_int_eq_self)
qed

lemma sint64_sum_wrapped:
  assumes "2 ^ 63 \<le> 1 + sint n + sint k" and "1 + sint n + sint k < 2 ^ 64"
  shows "sint (1 + n + k :: int64) < 0"
proof -
  let ?s = "1 + sint n + sint k"
  have "1 + n + k = word_of_int ?s" by simp
  then have "sint (1 + n + k) = signed_take_bit 63 ?s"
    by (simp only: sint_sbintrunc') simp
  also have "\<dots> = take_bit 64 (?s + 2 ^ 63) - 2 ^ 63"
    by (simp add: signed_take_bit_eq_take_bit_shift)
  finally have eq: "sint (1 + n + k) = take_bit 64 (?s + 2 ^ 63) - 2 ^ 63" .
  define t where "t = ?s + 2 ^ 63 - 2 ^ 64"
  have "?s + 2 ^ 63 = t + 2 ^ 64" by (simp add: t_def)
  then have "take_bit 64 (?s + 2 ^ 63) = take_bit 64 (t + 2 ^ 64)" by (simp only:)
  also have "\<dots> = take_bit 64 t" by (simp only: take_bit_eq_mod mod_add_self2)
  also from assms have "\<dots> = t"
    by (intro take_bit_int_eq_self) (simp_all add: t_def)
  finally have "sint (1 + n + k) = t - 2 ^ 63" using eq by simp
  with assms(2) show ?thesis by (simp add: t_def)
qed

section \<open>Rounding to 53 bits\<close>

lemma roundHalfEven_lower: "0 < u \<Longrightarrow> (a div u) * u \<le> roundHalfEven u a"
  by (simp add: roundHalfEven_def Let_def)

lemma roundHalfEven_upper: "0 < u \<Longrightarrow> roundHalfEven u a \<le> (a div u + 1) * u"
  by (simp add: roundHalfEven_def Let_def)

lemma roundHalfEven_multiple: "0 < u \<Longrightarrow> roundHalfEven u (m * u) = m * u"
  by (simp add: roundHalfEven_def Let_def)

lemma roundHalfEven_mono:
  assumes u: "0 < u" and ab: "a \<le> b"
  shows "roundHalfEven u a \<le> roundHalfEven u b"
proof (cases "a div u = b div u")
  case True
  have "a = (a div u) * u + a mod u" "b = (b div u) * u + b mod u" by simp_all
  with True ab have "a mod u \<le> b mod u" by (metis add_le_cancel_left)
  with True u show ?thesis
    by (auto simp: roundHalfEven_def Let_def distrib_right)
next
  case False
  with zdiv_mono1 [OF ab u] have "a div u + 1 \<le> b div u" by simp
  with u have "(a div u + 1) * u \<le> (b div u) * u"
    by (intro mult_right_mono) simp_all
  with roundHalfEven_upper [OF u, of a] roundHalfEven_lower [OF u, of b]
  show ?thesis by linarith
qed

lemma div_lower: 
  fixes a u k :: int
  assumes "0 < u" and "k * u \<le> a"
  shows "k \<le> a div u"
proof -
  from zdiv_mono1 [OF assms(2,1)] assms(1) show ?thesis by simp
qed

lemma div_upper:
  fixes a u k :: int
  assumes "0 < u" and "a < k * u"
  shows "a div u < k"
proof (rule ccontr)
  assume "\<not> a div u < k"
  then have "k \<le> a div u" by simp
  with assms(1) have "k * u \<le> (a div u) * u"
    by (intro mult_right_mono) simp_all
  also have "\<dots> \<le> a"
  proof -
    have "(a div u) * u + a mod u = a" by simp
    moreover from assms(1) have "0 \<le> a mod u" by simp
    ultimately show ?thesis by linarith
  qed
  finally show False using assms(2) by simp
qed

lemma roundHalfEven_ge:
  assumes "0 < u" and "k * u \<le> a"
  shows "k * u \<le> roundHalfEven u a"
proof -
  from div_lower [OF assms] assms(1) have "k * u \<le> (a div u) * u"
    by (intro mult_right_mono) simp_all
  with roundHalfEven_lower [OF assms(1), of a] show ?thesis by linarith
qed

lemma roundHalfEven_le:
  assumes "0 < u" and "a < k * u"
  shows "roundHalfEven u a \<le> k * u"
proof -
  from div_upper [OF assms] assms(1) have "(a div u + 1) * u \<le> k * u"
    by (intro mult_right_mono) simp_all
  with roundHalfEven_upper [OF assms(1), of a] show ?thesis by linarith
qed

text \<open>Bounds of a magnitude of more than 53 bits and of the value it is rounded to.\<close>

lemma large_magnitude:
  assumes "2 ^ 53 \<le> a"
  defines "e \<equiv> nat (bitlen a - 53)"
  shows "2 ^ 52 * 2 ^ e \<le> a" and "a < 2 ^ 53 * 2 ^ e" and "0 < e"
proof -
  from assms(1) have pos: "0 < a" by (smt (verit) zero_less_power)
  from assms(1) have "54 \<le> bitlen a"
    by (simp add: bitlen_ge_iff_power)
  then have L: "nat (bitlen a) = 53 + e" "nat (bitlen a - 1) = 52 + e" and "0 < e"
    by (simp_all add: e_def)
  from bitlen_bounds [OF pos] L show "2 ^ 52 * 2 ^ e \<le> a" "a < 2 ^ 53 * 2 ^ e"
    by (simp_all add: power_add)
  show "0 < e" by fact
qed

lemma round53_large:
  assumes "2 ^ 53 \<le> a"
  shows "round53 a = roundHalfEven (2 ^ nat (bitlen a - 53)) a"
proof -
  from assms have "0 < a" by (smt (verit) zero_less_power)
  with assms show ?thesis by (simp add: round53_def)
qed

lemma round53_large_bounds:
  assumes "2 ^ 53 \<le> a"
  shows "2 ^ 52 * 2 ^ nat (bitlen a - 53) \<le> round53 a"
    and "round53 a \<le> 2 ^ 53 * 2 ^ nat (bitlen a - 53)"
proof -
  let ?u = "2 ^ nat (bitlen a - 53) :: int"
  have u: "0 < ?u" by simp
  from large_magnitude [OF assms] have lo: "2 ^ 52 * ?u \<le> a" and hi: "a < 2 ^ 53 * ?u"
    by blast+
  show "2 ^ 52 * ?u \<le> round53 a"
    unfolding round53_large [OF assms] by (rule roundHalfEven_ge [OF u lo])
  show "round53 a \<le> 2 ^ 53 * ?u"
    unfolding round53_large [OF assms] by (rule roundHalfEven_le [OF u hi])
qed

lemma round53_small: "\<bar>x\<bar> < 2 ^ 53 \<Longrightarrow> round53 x = x"
  by (simp add: round53_def)

lemma round53_minus: "round53 (- x) = - round53 x"
  by (simp add: round53_def Let_def)

lemma round53_0: "round53 0 = 0"
  by (simp add: round53_def)

lemma bitlen_mono:
  assumes "x \<le> y"
  shows "bitlen x \<le> bitlen y"
proof (cases "0 < y")
  case True
  from bitlen_bounds [OF True] assms have "x < 2 ^ nat (bitlen y)" by simp
  then show ?thesis by (simp add: bitlen_le_iff_power bitlen_nonneg)
next
  case False
  with assms have "x \<le> 0" "y \<le> 0" by simp_all
  then show ?thesis by (simp add: bitlen_eq_zero_iff [THEN iffD2])
qed

lemma round53_mono_nonneg:
  assumes "0 \<le> x" and "x \<le> y"
  shows "round53 x \<le> round53 y"
proof (cases "y < 2 ^ 53")
  case True
  with assms show ?thesis by (simp add: round53_small)
next
  case False
  then have y: "2 ^ 53 \<le> y" by simp
  let ?ey = "nat (bitlen y - 53)"
  note ylo = round53_large_bounds(1) [OF y]
  from large_magnitude(3) [OF y] have "(2::int) ^ 1 \<le> 2 ^ ?ey"
    by (intro power_increasing) simp_all
  then have step: "(2::int) ^ 53 \<le> 2 ^ 52 * 2 ^ ?ey" by simp
  show ?thesis
  proof (cases "x < 2 ^ 53")
    case True
    with assms(1) have "round53 x = x" by (simp add: round53_small)
    with True step ylo show ?thesis by linarith
  next
    case False
    then have x: "2 ^ 53 \<le> x" by simp
    let ?ex = "nat (bitlen x - 53)"
    note xhi = round53_large_bounds(2) [OF x]
    from bitlen_mono [OF assms(2)] have le: "?ex \<le> ?ey" by simp
    show ?thesis
    proof (cases "?ex = ?ey")
      case True
      have "roundHalfEven (2 ^ ?ey) x \<le> roundHalfEven (2 ^ ?ey) y"
        by (rule roundHalfEven_mono [OF _ assms(2)]) simp
      with True show ?thesis by (simp add: round53_large [OF x] round53_large [OF y])
    next
      case False
      with le have "Suc ?ex \<le> ?ey" by simp
      then have "(2::int) ^ Suc ?ex \<le> 2 ^ ?ey"
        by (intro power_increasing) simp_all
      then have "(2::int) ^ 53 * 2 ^ ?ex \<le> 2 ^ 52 * 2 ^ ?ey" by simp
      with xhi ylo show ?thesis by linarith
    qed
  qed
qed

lemma round53_nonneg: "0 \<le> x \<Longrightarrow> 0 \<le> round53 x"
  using round53_mono_nonneg [of 0 x] by (simp add: round53_0)

lemma round53_nonpos: "x \<le> 0 \<Longrightarrow> round53 x \<le> 0"
  using round53_nonneg [of "- x"] by (simp add: round53_minus)

lemma round53_mono:
  assumes "x \<le> y"
  shows "round53 x \<le> round53 y"
proof (cases "0 \<le> x")
  case True
  then show ?thesis using assms by (rule round53_mono_nonneg)
next
  case False
  show ?thesis
  proof (cases "0 \<le> y")
    case True
    from False have "round53 x \<le> 0" by (intro round53_nonpos) simp
    with round53_nonneg [OF True] show ?thesis by simp
  next
    case y: False
    with assms have "0 \<le> - y" "- y \<le> - x" by simp_all
    from round53_mono_nonneg [OF this] show ?thesis by (simp add: round53_minus)
  qed
qed

lemma round53_pos:
  assumes "0 < x"
  shows "0 < round53 x"
proof (cases "x < 2 ^ 53")
  case True
  with assms show ?thesis by (simp add: round53_small)
next
  case False
  then have "2 ^ 53 \<le> x" by simp
  from round53_large_bounds(1) [OF this]
  show ?thesis by (smt (verit) zero_less_power mult_pos_pos)
qed

lemma round53_neg: "x < 0 \<Longrightarrow> round53 x < 0"
  using round53_pos [of "- x"] by (simp add: round53_minus)

lemma round53_power2: "round53 (2 ^ n) = 2 ^ n"
proof (cases "n < 53")
  case True
  then have "(2::int) ^ n < 2 ^ 53" by (intro power_strict_increasing) simp_all
  then show ?thesis by (simp add: round53_small)
next
  case False
  then have n: "n = 52 + (n - 52)" by simp
  from False have "(2::int) ^ 53 \<le> 2 ^ n" by (intro power_increasing) simp_all
  from round53_large [OF this] have "round53 (2 ^ n) = roundHalfEven (2 ^ nat (bitlen (2 ^ n) - 53)) (2 ^ n)" .
  moreover have "bitlen (2 ^ n) = int n + 1"
    using bitlen_pow2 [of 1 n] by (simp add: bitlen_alt_def)
  then have "nat (bitlen (2 ^ n) - 53) = n - 52" using False by simp
  moreover have "(2::int) ^ n = 2 ^ 52 * 2 ^ (n - 52)"
    using n by (metis power_add)
  ultimately show ?thesis
    using roundHalfEven_multiple [of "2 ^ (n - 52)" "2 ^ 52"] by simp
qed

lemma round53_le_power2: "x \<le> 2 ^ n \<Longrightarrow> round53 x \<le> 2 ^ n"
  using round53_mono [of x "2 ^ n"] by (simp add: round53_power2)

lemma round53_ge_power2: "2 ^ n \<le> x \<Longrightarrow> 2 ^ n \<le> round53 x"
  using round53_mono [of "2 ^ n" x] by (simp add: round53_power2)

lemma round53_abs_le: "\<bar>x\<bar> \<le> 2 ^ n \<Longrightarrow> \<bar>round53 x\<bar> \<le> 2 ^ n"
  using round53_le_power2 [of x n] round53_le_power2 [of "- x" n]
  by (simp add: round53_minus abs_le_iff)

lemma roundHalfEven_error:
  assumes "0 < u"
  shows "2 * \<bar>roundHalfEven u a - a\<bar> \<le> u"
proof -
  have eq: "a = (a div u) * u + a mod u" by simp
  from assms have r: "0 \<le> a mod u" "a mod u < u" by simp_all
  show ?thesis
  proof (cases "u < 2 * (a mod u) \<or> (2 * (a mod u) = u \<and> odd (a div u))")
    case True
    then have "roundHalfEven u a = (a div u) * u + u"
      by (simp add: roundHalfEven_def Let_def distrib_right)
    with eq have "roundHalfEven u a - a = u - a mod u" by linarith
    with True r show ?thesis by auto
  next
    case False
    then have "roundHalfEven u a = (a div u) * u"
      by (auto simp: roundHalfEven_def Let_def)
    with eq have "roundHalfEven u a - a = - (a mod u)" by linarith
    with False r show ?thesis by auto
  qed
qed

lemma round53_error_nonneg:
  assumes "0 \<le> x"
  shows "2 ^ 53 * \<bar>round53 x - x\<bar> \<le> x"
proof (cases "x < 2 ^ 53")
  case True
  with assms show ?thesis by (simp add: round53_small)
next
  case False
  then have x: "2 ^ 53 \<le> x" by simp
  let ?u = "2 ^ nat (bitlen x - 53) :: int"
  have "2 * \<bar>roundHalfEven ?u x - x\<bar> \<le> ?u" by (rule roundHalfEven_error) simp
  then have "2 ^ 52 * (2 * \<bar>roundHalfEven ?u x - x\<bar>) \<le> 2 ^ 52 * ?u"
    by (intro mult_left_mono) simp_all
  with large_magnitude(1) [OF x] have "2 ^ 52 * (2 * \<bar>roundHalfEven ?u x - x\<bar>) \<le> x"
    by linarith
  then show ?thesis by (simp add: round53_large [OF x])
qed

lemma round53_error: "2 ^ 53 * \<bar>round53 x - x\<bar> \<le> \<bar>x\<bar>"
proof (cases "0 \<le> x")
  case True
  with round53_error_nonneg [of x] show ?thesis by simp
next
  case False
  with round53_error_nonneg [of "- x"] show ?thesis
    by (simp add: round53_minus abs_minus_commute)
qed

text \<open>
  Rounding keeps two values apart whose distance is at least the \<open>K\<close>-th part of the
  larger one, for \<open>K\<close> up to \<open>2^51\<close>, and the distance stays at least the \<open>2K\<close>-th part.
\<close>

lemma round53_gap:
  assumes a: "0 \<le> a" and ab: "a < b" and K: "b \<le> K * (b - a)" and small: "4 * K \<le> 2 ^ 53"
  shows "round53 a < round53 b" and "round53 b \<le> 2 * K * (round53 b - round53 a)"
proof -
  let ?fa = "round53 a" and ?fb = "round53 b"
  let ?E = "2 ^ 53 :: int"
  from a ab have b: "0 \<le> b" by simp
  from round53_error [of a] a have ea: "?E * \<bar>?fa - a\<bar> \<le> a" by simp
  from round53_error [of b] b have eb: "?E * \<bar>?fb - b\<bar> \<le> b" by simp
  have "?E * (?fb - ?fa) = ?E * (b - a) + ?E * (?fb - b) - ?E * (?fa - a)"
    by (simp add: algebra_simps)
  moreover have "- (?E * \<bar>?fb - b\<bar>) \<le> ?E * (?fb - b)"
    by (smt (verit) mult_minus_right mult_left_mono abs_ge_minus_self zero_le_numeral zero_le_power)
  moreover have "?E * (?fa - a) \<le> ?E * \<bar>?fa - a\<bar>"
    by (intro mult_left_mono) simp_all
  ultimately have low: "?E * (b - a) - a - b \<le> ?E * (?fb - ?fa)"
    using ea eb by linarith
  from ab have d: "0 \<le> b - a" by simp
  from small d have "4 * K * (b - a) \<le> ?E * (b - a)"
    by (intro mult_right_mono) simp_all
  with K have Kd: "4 * b \<le> ?E * (b - a)" by (simp add: algebra_simps)
  from low Kd a ab have half: "?E * (b - a) \<le> 2 * (?E * (?fb - ?fa))" by linarith
  then have h2: "b - a \<le> 2 * (?fb - ?fa)" by simp
  with ab have "0 < 2 * (?fb - ?fa)" by linarith
  then show "?fa < ?fb" by simp
  have "?E * (?fb - b) \<le> ?E * \<bar>?fb - b\<bar>"
    by (intro mult_left_mono) simp_all
  with eb have up: "?E * ?fb \<le> (?E + 1) * b" by (simp add: algebra_simps)
  \<comment> \<open>the sharper lower bound\<close>
  from low have low': "(?E + 1) * (b - a) - 2 * b \<le> ?E * (?fb - ?fa)"
    by (simp add: algebra_simps)
  have Kpos: "0 \<le> K"
  proof (rule ccontr)
    assume "\<not> 0 \<le> K"
    then have "K \<le> 0" by simp
    with d have "K * (b - a) \<le> 0" by (simp add: mult_nonpos_nonneg)
    with K a ab show False by linarith
  qed
  define D where "D = K * (b - a)"
  define KF where "KF = K * (?fb - ?fa)"
  define Kb where "Kb = K * b"
  have KD: "b \<le> D" using K by (simp add: D_def)
  from Kpos low' have "K * ((?E + 1) * (b - a) - 2 * b) \<le> K * (?E * (?fb - ?fa))"
    by (intro mult_left_mono)
  then have m2: "(?E + 1) * D - 2 * Kb \<le> ?E * KF"
    by (simp add: D_def KF_def Kb_def algebra_simps)
  from small b have "4 * K * b \<le> ?E * b" by (intro mult_right_mono) simp_all
  then have m3: "4 * Kb \<le> ?E * b" by (simp add: Kb_def)
  from up m2 m3 KD b have "?E * ?fb \<le> ?E * (2 * KF)" by simp
  then have "?fb \<le> 2 * KF" by (simp only: mult_le_cancel_left_pos zero_less_numeral zero_less_power)
  then show "?fb \<le> 2 * K * (?fb - ?fa)" by (simp add: KF_def)
qed

section \<open>The \<open>float64\<close> operations\<close>

lemma float64_of_int64_abs_le: "\<bar>float64_of_int64 w\<bar> \<le> 2 ^ 63"
proof -
  from sint64_bounds [of w] have "\<bar>sint w\<bar> \<le> 2 ^ 63" by simp
  then show ?thesis unfolding float64_of_int64_def by (rule round53_abs_le)
qed

lemma f64_mul_abs_le:
  assumes "\<bar>x\<bar> \<le> 2 ^ m" and "\<bar>y\<bar> \<le> 2 ^ n"
  shows "\<bar>f64_mul x y\<bar> \<le> 2 ^ (m + n)"
proof -
  from assms have "\<bar>x\<bar> * \<bar>y\<bar> \<le> 2 ^ m * 2 ^ n"
    by (intro mult_mono) simp_all
  then have "\<bar>x * y\<bar> \<le> 2 ^ (m + n)" by (simp add: abs_mult power_add)
  then show ?thesis unfolding f64_mul_def by (rule round53_abs_le)
qed

lemma f64_mul_mono_nonneg:
  assumes "0 \<le> x" "x \<le> x'" "0 \<le> y" "y \<le> y'"
  shows "f64_mul x y \<le> f64_mul x' y'"
  unfolding f64_mul_def using assms by (intro round53_mono mult_mono) simp_all

lemma f64_mul_nonneg: "0 \<le> x \<Longrightarrow> 0 \<le> y \<Longrightarrow> 0 \<le> f64_mul x y"
  unfolding f64_mul_def by (intro round53_nonneg) simp

lemma f64_mul_ge_power2:
  assumes "2 ^ m \<le> x" and "2 ^ n \<le> y"
  shows "2 ^ (m + n) \<le> f64_mul x y"
proof -
  have "(0::int) \<le> 2 ^ m" by simp
  with assms(1) have "0 \<le> x" by linarith
  with assms have "(2::int) ^ m * 2 ^ n \<le> x * y"
    by (intro mult_mono) simp_all
  then have "2 ^ (m + n) \<le> x * y" by (simp add: power_add)
  then show ?thesis unfolding f64_mul_def by (rule round53_ge_power2)
qed

lemma Pow_3_abs_le:
  assumes "\<bar>x\<bar> \<le> 2 ^ n"
  shows "\<bar>Pow_3 x\<bar> \<le> 2 ^ (n + (n + n))"
  unfolding Pow_3_def by (intro f64_mul_abs_le assms)

lemma Pow_3_nonneg: "0 \<le> x \<Longrightarrow> 0 \<le> Pow_3 x"
  unfolding Pow_3_def by (intro f64_mul_nonneg) simp_all

lemma Pow_3_mono_nonneg:
  assumes "0 \<le> x" "x \<le> y"
  shows "Pow_3 x \<le> Pow_3 y"
  unfolding Pow_3_def using assms by (intro f64_mul_mono_nonneg f64_mul_nonneg) simp_all

lemma Pow_3_neg:
  assumes "x < 0"
  shows "Pow_3 x < 0"
proof -
  from assms have "0 < x * x" by (simp add: zero_less_mult_iff)
  then have "0 < f64_mul x x" unfolding f64_mul_def by (rule round53_pos)
  with assms have "x * f64_mul x x < 0" by (simp add: mult_less_0_iff)
  then show ?thesis unfolding Pow_3_def f64_mul_def [of x "f64_mul x x"] by (rule round53_neg)
qed

lemma Pow_3_ge_power2:
  assumes "2 ^ n \<le> x"
  shows "2 ^ (n + (n + n)) \<le> Pow_3 x"
  unfolding Pow_3_def by (intro f64_mul_ge_power2 assms)

lemma Pow_3_gap:
  assumes x: "0 \<le> x" and xy: "x < y" and y: "y \<le> 2 ^ 51"
  shows "Pow_3 x < Pow_3 y" and "Pow_3 y \<le> 2 * y * (Pow_3 y - Pow_3 x)"
proof -
  let ?qx = "f64_mul x x" and ?qy = "f64_mul y y"
  from x have qx: "0 \<le> ?qx" by (intro f64_mul_nonneg)
  from x xy have qxy: "?qx \<le> ?qy" by (intro f64_mul_mono_nonneg) simp_all
  from x xy have "0 < y * y" by (simp add: zero_less_mult_iff)
  then have qy: "0 < ?qy" unfolding f64_mul_def by (rule round53_pos)
  from x xy qx qxy have "x * ?qx \<le> (y - 1) * ?qy" by (intro mult_mono) simp_all
  then have d: "?qy \<le> y * ?qy - x * ?qx" by (simp add: algebra_simps)
  with qy have lt: "x * ?qx < y * ?qy" by linarith
  from x qx have a: "0 \<le> x * ?qx" by simp
  from x xy d have "y * ?qy \<le> y * (y * ?qy - x * ?qx)" by (intro mult_left_mono) simp_all
  moreover from y have "4 * y \<le> 2 ^ 53" by simp
  ultimately show "Pow_3 x < Pow_3 y" "Pow_3 y \<le> 2 * y * (Pow_3 y - Pow_3 x)"
    unfolding Pow_3_def f64_mul_def [of x "f64_mul x x"] f64_mul_def [of y "f64_mul y y"]
    using round53_gap [OF a lt] by blast+
qed

lemma f64_mul_gap:
  assumes p: "0 \<le> p" and pq: "p < q" and K: "q \<le> K * (q - p)" and s: "0 < s"
    and small: "4 * K \<le> 2 ^ 53"
  shows "f64_mul p s < f64_mul q s" and "f64_mul q s \<le> 2 * K * (f64_mul q s - f64_mul p s)"
proof -
  from p s have a: "0 \<le> p * s" by simp
  from pq s have lt: "p * s < q * s" by simp
  from K s have "q * s \<le> K * (q - p) * s" by (intro mult_right_mono) simp_all
  then have "q * s \<le> K * (q * s - p * s)" by (simp add: algebra_simps)
  with small show "f64_mul p s < f64_mul q s"
    "f64_mul q s \<le> 2 * K * (f64_mul q s - f64_mul p s)"
    unfolding f64_mul_def using round53_gap [OF a lt] by blast+
qed

section \<open>The score function\<close>

lemma calculateScore_cases:
  "calculateScore b now node cost k =
     (case cost of
        None \<Rightarrow> loadOnlyScore k
      | Some c \<Rightarrow>
          if ResponseTime c = 0 \<or> ServiceTime c = 0 then loadOnlyScore k
          else if k = 0 \<and> TotalNQ c = 0 \<and> isNodeCostMetricsTooOld b now node then 0
          else generalScore c k)"
  by (simp add: calculateScore_def generalScore_def split: option.splits)

lemma calculateScore_general:
  assumes "ResponseTime c \<noteq> 0" and "ServiceTime c \<noteq> 0"
    and "\<not> (k = 0 \<and> TotalNQ c = 0 \<and> isNodeCostMetricsTooOld b now node)"
  shows "calculateScore b now node (Some c) k = generalScore c k"
  using assms by (auto simp: calculateScore_cases)

lemma isNodeCostMetricsTooOld_ledger:
  "isNodeCostMetricsTooOld (b\<lparr>executingTaskTotalNQ := l\<rparr>) now node = isNodeCostMetricsTooOld b now node"
  by (simp add: isNodeCostMetricsTooOld_def)

lemma calculateScore_ledger:
  "calculateScore (b\<lparr>executingTaskTotalNQ := l\<rparr>) now node cost k = calculateScore b now node cost k"
  by (cases cost) (simp_all add: calculateScore_def isNodeCostMetricsTooOld_ledger)

lemma loadOnlyScore_0: "loadOnlyScore 0 = 1"
  by (simp add: loadOnlyScore_def Pow_3_def f64_mul_def float64_of_int64_def round53_def)

lemma loadOnlyScore_abs_le: "\<bar>loadOnlyScore k\<bar> \<le> 2 ^ 189"
  using Pow_3_abs_le [OF float64_of_int64_abs_le, of "1 + k"] by (simp add: loadOnlyScore_def)

lemma workload_abs_le: "\<bar>workload c k\<bar> \<le> 2 ^ 252"
  using f64_mul_abs_le [OF Pow_3_abs_le [OF float64_of_int64_abs_le] float64_of_int64_abs_le,
    of "1 + TotalNQ c + k" "ServiceTime c"]
  by (simp add: workload_def)

lemma executeSpeed_abs_le: "\<bar>executeSpeed c\<bar> \<le> 2 ^ 64"
proof -
  from float64_of_int64_abs_le [of "ResponseTime c"] float64_of_int64_abs_le [of "ServiceTime c"]
  have "\<bar>float64_of_int64 (ResponseTime c) - float64_of_int64 (ServiceTime c)\<bar> \<le> 2 ^ 64"
    by simp
  then show ?thesis unfolding executeSpeed_def f64_sub_def by (rule round53_abs_le)
qed

lemma MaxFloat64_ge: "2 ^ 253 \<le> MaxFloat64"
  by (simp add: MaxFloat64_def)

lemma generalScore_le_MaxFloat64: "generalScore c k \<le> MaxFloat64"
proof (cases "workload c k < 0")
  case True
  then show ?thesis by (simp add: generalScore_def)
next
  case False
  from executeSpeed_abs_le [of c] workload_abs_le [of c k]
  have "\<bar>executeSpeed c + workload c k\<bar> \<le> 2 ^ 253" by simp
  then have "\<bar>f64_add (executeSpeed c) (workload c k)\<bar> \<le> 2 ^ 253"
    unfolding f64_add_def by (rule round53_abs_le)
  with MaxFloat64_ge False show ?thesis by (simp add: generalScore_def)
qed

lemma calculateScore_le_MaxFloat64: "calculateScore b now node cost k \<le> MaxFloat64"
proof -
  from loadOnlyScore_abs_le [of k] MaxFloat64_ge have "loadOnlyScore k \<le> MaxFloat64" by simp
  moreover from MaxFloat64_ge have "0 \<le> MaxFloat64" by simp
  ultimately show ?thesis
    by (simp add: calculateScore_cases generalScore_le_MaxFloat64 split: option.splits)
qed

lemma generalScore_mono:
  assumes S: "0 < sint (ServiceTime c)"
    and B1: "0 \<le> sint (1 + TotalNQ c + k1)"
    and B12: "sint (1 + TotalNQ c + k1) \<le> sint (1 + TotalNQ c + k2)"
  shows "generalScore c k1 \<le> generalScore c k2"
proof -
  let ?x1 = "float64_of_int64 (1 + TotalNQ c + k1)"
  let ?x2 = "float64_of_int64 (1 + TotalNQ c + k2)"
  let ?s = "float64_of_int64 (ServiceTime c)"
  from B1 have x1: "0 \<le> ?x1" unfolding float64_of_int64_def by (rule round53_nonneg)
  from B12 have x12: "?x1 \<le> ?x2" unfolding float64_of_int64_def by (rule round53_mono)
  from S have s: "0 \<le> ?s" unfolding float64_of_int64_def by (intro round53_nonneg) simp
  from x1 x12 have x2: "0 \<le> ?x2" by simp
  have w1: "0 \<le> workload c k1" unfolding workload_def
    by (intro f64_mul_nonneg Pow_3_nonneg x1 s)
  have w2: "0 \<le> workload c k2" unfolding workload_def
    by (intro f64_mul_nonneg Pow_3_nonneg x2 s)
  have "workload c k1 \<le> workload c k2" unfolding workload_def
    by (intro f64_mul_mono_nonneg Pow_3_nonneg Pow_3_mono_nonneg x1 x12 s) simp
  then have "f64_add (executeSpeed c) (workload c k1) \<le> f64_add (executeSpeed c) (workload c k2)"
    unfolding f64_add_def by (intro round53_mono) simp
  with w1 w2 show ?thesis by (simp add: generalScore_def)
qed

lemma workload_negative:
  assumes "sint (1 + TotalNQ c + k) < 0" and "0 < sint (ServiceTime c)"
  shows "workload c k < 0"
proof -
  from assms(1) have "float64_of_int64 (1 + TotalNQ c + k) < 0"
    unfolding float64_of_int64_def by (rule round53_neg)
  then have "Pow_3 (float64_of_int64 (1 + TotalNQ c + k)) < 0" by (rule Pow_3_neg)
  moreover from assms(2) have "0 < float64_of_int64 (ServiceTime c)"
    unfolding float64_of_int64_def by (rule round53_pos)
  ultimately have
    "Pow_3 (float64_of_int64 (1 + TotalNQ c + k)) * float64_of_int64 (ServiceTime c) < 0"
    by (simp add: mult_less_0_iff)
  then show ?thesis unfolding workload_def f64_mul_def by (rule round53_neg)
qed

lemma generalScore_strict:
  assumes S: "0 < sint (ServiceTime c)" "sint (ServiceTime c) < 2 ^ 51"
    and R: "\<bar>sint (ResponseTime c)\<bar> < 2 ^ 51"
    and B1: "0 \<le> sint (1 + TotalNQ c + k1)"
    and B12: "sint (1 + TotalNQ c + k1) < sint (1 + TotalNQ c + k2)"
    and B2: "sint (1 + TotalNQ c + k2) \<le> 2 ^ 49"
  shows "generalScore c k1 < generalScore c k2"
proof -
  let ?B1 = "sint (1 + TotalNQ c + k1)" and ?B2 = "sint (1 + TotalNQ c + k2)"
  let ?S = "sint (ServiceTime c)" and ?R = "sint (ResponseTime c)"
  let ?W1 = "workload c k1" and ?W2 = "workload c k2"
  let ?E = "2 ^ 53 :: int"
  from B1 B12 B2 have "\<bar>?B1\<bar> < 2 ^ 53" "\<bar>?B2\<bar> < 2 ^ 53" by simp_all
  then have x: "float64_of_int64 (1 + TotalNQ c + k1) = ?B1"
    "float64_of_int64 (1 + TotalNQ c + k2) = ?B2"
    unfolding float64_of_int64_def by (simp_all only: round53_small)
  from S have "\<bar>?S\<bar> < 2 ^ 53" by simp
  then have s: "float64_of_int64 (ServiceTime c) = ?S"
    unfolding float64_of_int64_def by (rule round53_small)
  from R have "\<bar>?R\<bar> < 2 ^ 53" by simp
  then have r: "float64_of_int64 (ResponseTime c) = ?R"
    unfolding float64_of_int64_def by (rule round53_small)
  from R S have "\<bar>?R - ?S\<bar> < 2 ^ 53" by simp
  then have e: "executeSpeed c = ?R - ?S"
    by (simp only: executeSpeed_def r s f64_sub_def round53_small)
  from R S have es: "\<bar>executeSpeed c\<bar> < 2 ^ 52" by (simp add: e)
  from B2 have "?B2 \<le> 2 ^ 51" by simp
  note P = Pow_3_gap [OF B1 B12 this]
  from B1 have P1: "0 \<le> Pow_3 ?B1" by (rule Pow_3_nonneg)
  from B2 have "4 * (2 * ?B2) \<le> 2 ^ 53" by simp
  note W = f64_mul_gap [OF P1 P(1) P(2) S(1) this]
  from W have lt: "?W1 < ?W2" and rel: "?W2 \<le> 2 * (2 * ?B2) * (?W2 - ?W1)"
    by (simp_all only: workload_def x s)
  from P1 S(1) have w1: "0 \<le> ?W1"
    unfolding workload_def x s by (intro f64_mul_nonneg) simp_all
  define G where "G = ?W2 - ?W1"
  from lt have G: "1 \<le> G" by (simp add: G_def)
  from B2 G have "(2 * (2 * ?B2)) * G \<le> (2 * (2 * 2 ^ 49)) * G"
    by (intro mult_right_mono) simp_all
  with rel have w2: "?W2 \<le> 2 ^ 51 * G" by (simp add: G_def)
  let ?t1 = "executeSpeed c + ?W1" and ?t2 = "executeSpeed c + ?W2"
  have sums: "round53 ?t1 < round53 ?t2"
  proof (cases "G \<le> 2")
    case True
    with w2 have "?W2 \<le> 2 ^ 52" by simp
    with w1 lt es have "\<bar>?t1\<bar> < 2 ^ 53" "\<bar>?t2\<bar> < 2 ^ 53" by simp_all
    then have "round53 ?t1 = ?t1" "round53 ?t2 = ?t2" by (simp_all only: round53_small)
    with lt show ?thesis by simp
  next
    case False
    then have G3: "3 \<le> G" by simp
    from w1 lt es w2 have t: "\<bar>?t1\<bar> < 2 ^ 52 + 2 ^ 51 * G" "\<bar>?t2\<bar> < 2 ^ 52 + 2 ^ 51 * G"
      by linarith+
    have "?E * (round53 ?t2 - round53 ?t1) =
          ?E * (?t2 - ?t1) + ?E * (round53 ?t2 - ?t2) - ?E * (round53 ?t1 - ?t1)"
      by (simp add: algebra_simps)
    moreover have "?t2 - ?t1 = G" by (simp add: G_def)
    moreover have "- \<bar>?t2\<bar> \<le> ?E * (round53 ?t2 - ?t2)"
    proof -
      have "- (?E * \<bar>round53 ?t2 - ?t2\<bar>) \<le> ?E * (round53 ?t2 - ?t2)"
        by (smt (verit) mult_minus_right mult_left_mono abs_ge_minus_self zero_le_numeral
            zero_le_power)
      with round53_error [of ?t2] show ?thesis by linarith
    qed
    moreover have "?E * (round53 ?t1 - ?t1) \<le> \<bar>?t1\<bar>"
    proof -
      have "?E * (round53 ?t1 - ?t1) \<le> ?E * \<bar>round53 ?t1 - ?t1\<bar>"
        by (intro mult_left_mono) simp_all
      with round53_error [of ?t1] show ?thesis by linarith
    qed
    ultimately have "?E * G - \<bar>?t1\<bar> - \<bar>?t2\<bar> \<le> ?E * (round53 ?t2 - round53 ?t1)"
      by (simp only:)
    with t G3 have "0 < ?E * (round53 ?t2 - round53 ?t1)" by simp
    then show ?thesis by (simp add: zero_less_mult_iff)
  qed
  from w1 lt have "\<not> ?W1 < 0" "\<not> ?W2 < 0" by simp_all
  with sums show ?thesis by (simp add: generalScore_def f64_add_def)
qed

lemma huge_queue_workload:
  assumes "ServiceTime c = 2 ^ 20" and "TotalNQ c = 2 ^ 62" and "0 \<le> sint k"
  shows "workload c k < 0 \<or> 2 ^ 206 \<le> workload c k"
proof -
  have n: "sint (2 ^ 62 :: int64) = 2 ^ 62" by simp
  have s: "float64_of_int64 (2 ^ 20) = 2 ^ 20"
    by (simp add: float64_of_int64_def round53_small)
  let ?x = "float64_of_int64 (1 + 2 ^ 62 + k)"
  show ?thesis
  proof (cases "1 + 2 ^ 62 + sint k < (2 ^ 63 :: int)")
    case True
    with assms(3) have "sint (1 + 2 ^ 62 + k) = 1 + 2 ^ 62 + sint k"
      using sint64_sum [of "2 ^ 62" k] by (simp only: n) simp
    with assms(3) have "2 ^ 62 \<le> sint (1 + 2 ^ 62 + k)" by simp
    then have "2 ^ 62 \<le> ?x" unfolding float64_of_int64_def by (rule round53_ge_power2)
    then have "2 ^ (62 + (62 + 62)) \<le> Pow_3 ?x" by (rule Pow_3_ge_power2)
    moreover have "(2::int) ^ 20 \<le> 2 ^ 20" by simp
    ultimately have "2 ^ (62 + (62 + 62) + 20) \<le> f64_mul (Pow_3 ?x) (2 ^ 20)"
      by (rule f64_mul_ge_power2)
    then have "2 ^ 206 \<le> f64_mul (Pow_3 ?x) (2 ^ 20)" by simp
    moreover have "workload c k = f64_mul (Pow_3 ?x) (2 ^ 20)"
      by (simp only: workload_def assms(1,2) s)
    ultimately show ?thesis by (simp only: simp_thms)
  next
    case False
    moreover from sint64_bounds(2) [of k] have "1 + 2 ^ 62 + sint k < (2 ^ 64 :: int)" by simp
    ultimately have "sint (1 + 2 ^ 62 + k) < 0"
      using sint64_sum_wrapped [of "2 ^ 62" k] by (simp only: n)
    then have "?x < 0" unfolding float64_of_int64_def by (rule round53_neg)
    then have "Pow_3 ?x < 0" by (rule Pow_3_neg)
    then have "Pow_3 ?x * 2 ^ 20 < 0" by (simp add: mult_less_0_iff)
    then have "f64_mul (Pow_3 ?x) (2 ^ 20) < 0" unfolding f64_mul_def by (rule round53_neg)
    moreover have "workload c k = f64_mul (Pow_3 ?x) (2 ^ 20)"
      by (simp only: workload_def assms(1,2) s)
    ultimately show ?thesis by (simp only: simp_thms)
  qed
qed

lemma huge_queue_score:
  assumes "ResponseTime c \<noteq> 0" and "ServiceTime c = 2 ^ 20" and "TotalNQ c = 2 ^ 62"
    and "0 \<le> sint k"
  shows "2 ^ 205 \<le> calculateScore b now node (Some c) k"
proof -
  from assms(2,3) have "ServiceTime c \<noteq> 0" "TotalNQ c \<noteq> 0" by simp_all
  with assms(1) have g: "calculateScore b now node (Some c) k = generalScore c k"
    by (intro calculateScore_general) simp_all
  from huge_queue_workload [OF assms(2,3,4)] show ?thesis
  proof
    assume "workload c k < 0"
    with MaxFloat64_ge show ?thesis by (simp add: g generalScore_def)
  next
    assume w: "2 ^ 206 \<le> workload c k"
    from executeSpeed_abs_le [of c] have "- (2 ^ 64) \<le> executeSpeed c" by simp
    with w have "2 ^ 205 \<le> executeSpeed c + workload c k" by simp
    then have "2 ^ 205 \<le> f64_add (executeSpeed c) (workload c k)"
      unfolding f64_add_def by (rule round53_ge_power2)
    with w show ?thesis by (simp add: g generalScore_def)
  qed
qed

section \<open>The loop of the selection\<close>

lemma nodeScore_zero_counter:
  "executingTaskTotalNQ b node = None \<Longrightarrow>
   nodeScore (b\<lparr>executingTaskTotalNQ := (executingTaskTotalNQ b)(node \<mapsto> 0)\<rparr>) now = nodeScore b now"
  by (rule ext) (simp add: nodeScore_def inFlight_def calculateScore_ledger)

lemma ledgerAfterLoop_Cons_unreachable:
  "node \<in> unreachableQueryNodes b \<Longrightarrow> ledgerAfterLoop b (node # rest) = ledgerAfterLoop b rest"
  by (rule ext) (auto simp: ledgerAfterLoop_def)

lemma ledgerAfterLoop_Cons_present:
  "node \<notin> unreachableQueryNodes b \<Longrightarrow> executingTaskTotalNQ b node = Some v \<Longrightarrow>
   ledgerAfterLoop b (node # rest) = ledgerAfterLoop b rest"
  by (rule ext) (auto simp: ledgerAfterLoop_def)

lemma ledgerAfterLoop_Cons_absent:
  "node \<notin> unreachableQueryNodes b \<Longrightarrow> executingTaskTotalNQ b node = None \<Longrightarrow>
   ledgerAfterLoop b (node # rest) =
   ledgerAfterLoop (b\<lparr>executingTaskTotalNQ := (executingTaskTotalNQ b)(node \<mapsto> 0)\<rparr>) rest"
  by (rule ext) (auto simp: ledgerAfterLoop_def)

lemma SelectNode_loop_snd:
  "snd (SelectNode_loop b now nodes target) = b\<lparr>executingTaskTotalNQ := ledgerAfterLoop b nodes\<rparr>"
proof (induction nodes arbitrary: b target)
  case Nil
  show ?case by (simp add: ledgerAfterLoop_def)
next
  case (Cons node rest)
  obtain t s where target: "target = (t, s)" by (cases target)
  show ?case
  proof (cases "node \<in> unreachableQueryNodes b")
    case True
    then show ?thesis
      by (simp add: target Cons.IH ledgerAfterLoop_Cons_unreachable)
  next
    case False
    show ?thesis
    proof (cases "executingTaskTotalNQ b node")
      case None
      with False show ?thesis
        by (simp add: target Cons.IH ledgerAfterLoop_Cons_absent Let_def)
    next
      case (Some v)
      with False show ?thesis
        by (simp add: target Cons.IH ledgerAfterLoop_Cons_present Let_def)
    qed
  qed
qed

lemma SelectNode_loop_fst:
  "fst (SelectNode_loop b now nodes target) =
   pickTarget (nodeScore b now) (unreachableQueryNodes b) nodes target"
proof (induction nodes arbitrary: b target)
  case Nil
  show ?case by simp
next
  case (Cons node rest)
  obtain t s where target: "target = (t, s)" by (cases target)
  show ?case
  proof (cases "node \<in> unreachableQueryNodes b")
    case True
    then show ?thesis by (simp add: target Cons.IH)
  next
    case False
    show ?thesis
    proof (cases "executingTaskTotalNQ b node")
      case None
      have sc: "calculateScore (b\<lparr>executingTaskTotalNQ := (executingTaskTotalNQ b)(node \<mapsto> 0)\<rparr>) now node
                 (case metricsMap b node of None \<Rightarrow> None | Some c \<Rightarrow> c) 0 = nodeScore b now node"
        using None by (simp add: nodeScore_def inFlight_def calculateScore_ledger)
      from False None show ?thesis
        by (simp add: target Cons.IH Let_def sc nodeScore_zero_counter)
    next
      case (Some v)
      have sc: "calculateScore b now node (case metricsMap b node of None \<Rightarrow> None | Some c \<Rightarrow> c) v
                = nodeScore b now node"
        using Some by (simp add: nodeScore_def inFlight_def)
      from False Some show ?thesis
        by (simp add: target Cons.IH Let_def sc)
    qed
  qed
qed

lemma pickTarget_member:
  "pickTarget sc U nodes (t, s) = (t', s') \<Longrightarrow>
   (t' = t \<and> s' = s) \<or> (t' \<in> set nodes \<and> t' \<notin> U \<and> s' = sc t')"
proof (induction nodes arbitrary: t s)
  case Nil
  then show ?case by simp
next
  case (Cons node rest)
  then show ?case
    by (fastforce split: if_splits)
qed

lemma pickTarget_first_min:
  assumes "- 1 \<notin> set nodes" and "pickTarget sc U nodes (t, s) = (t', s')"
  shows "(t' = t \<and> s' = s \<and> (t = - 1 \<longrightarrow> (\<forall>m\<in>set nodes. m \<in> U))
            \<and> (t \<noteq> - 1 \<longrightarrow> (\<forall>m\<in>set nodes. m \<notin> U \<longrightarrow> s \<le> sc m)))
         \<or> (\<exists>pre post. nodes = pre @ t' # post \<and> t' \<notin> U \<and> s' = sc t'
              \<and> (t \<noteq> - 1 \<longrightarrow> sc t' < s)
              \<and> (\<forall>m\<in>set pre. m \<notin> U \<longrightarrow> sc t' < sc m)
              \<and> (\<forall>m\<in>set post. m \<notin> U \<longrightarrow> sc t' \<le> sc m))"
  using assms
proof (induction nodes arbitrary: t s)
  case Nil
  then show ?case by simp
next
  case (Cons node rest)
  let ?Q = "\<lambda>nodes t s. (t' = t \<and> s' = s \<and> (t = - 1 \<longrightarrow> (\<forall>m\<in>set nodes. m \<in> U))
            \<and> (t \<noteq> - 1 \<longrightarrow> (\<forall>m\<in>set nodes. m \<notin> U \<longrightarrow> s \<le> sc m)))"
  let ?R = "\<lambda>nodes t s pre post. nodes = pre @ t' # post \<and> t' \<notin> U \<and> s' = sc t'
              \<and> (t \<noteq> - 1 \<longrightarrow> sc t' < s)
              \<and> (\<forall>m\<in>set pre. m \<notin> U \<longrightarrow> sc t' < sc m)
              \<and> (\<forall>m\<in>set post. m \<notin> U \<longrightarrow> sc t' \<le> sc m)"
  from Cons.prems have no: "- 1 \<notin> set rest" and node: "node \<noteq> - 1" by auto
  show ?case
  proof (cases "node \<in> U")
    case True
    with Cons.prems have "pickTarget sc U rest (t, s) = (t', s')" by simp
    from Cons.IH [OF no this] show ?thesis
    proof
      assume "?Q rest t s"
      with True show ?thesis by auto
    next
      assume "\<exists>pre post. ?R rest t s pre post"
      then obtain pre post where "?R rest t s pre post" by blast
      with True have "?R (node # rest) t s (node # pre) post" by auto
      then show ?thesis by blast
    qed
  next
    case False
    show ?thesis
    proof (cases "t = - 1 \<or> sc node < s")
      case True
      with False Cons.prems have "pickTarget sc U rest (node, sc node) = (t', s')" by auto
      from Cons.IH [OF no this] show ?thesis
      proof
        assume "?Q rest node (sc node)"
        with node True False have "?R (node # rest) t s [] rest" by auto
        then show ?thesis by blast
      next
        assume "\<exists>pre post. ?R rest node (sc node) pre post"
        then obtain pre post where "?R rest node (sc node) pre post" by blast
        with node True False have "?R (node # rest) t s (node # pre) post" by auto
        then show ?thesis by blast
      qed
    next
      case stay: False
      with False Cons.prems have "pickTarget sc U rest (t, s) = (t', s')" by auto
      from Cons.IH [OF no this] show ?thesis
      proof
        assume "?Q rest t s"
        with stay False show ?thesis by auto
      next
        assume "\<exists>pre post. ?R rest t s pre post"
        then obtain pre post where "?R rest t s pre post" by blast
        with stay False have "?R (node # rest) t s (node # pre) post" by auto
        then show ?thesis by blast
      qed
    qed
  qed
qed

lemma SelectNode_loop_eq:
  "SelectNode_loop b now nodes target =
   (pickTarget (nodeScore b now) (unreachableQueryNodes b) nodes target,
    b\<lparr>executingTaskTotalNQ := ledgerAfterLoop b nodes\<rparr>)"
  by (simp add: prod_eq_iff SelectNode_loop_fst SelectNode_loop_snd)

lemma ledgerAfterLoop_scored:
  "n \<in> set nodes \<Longrightarrow> n \<notin> unreachableQueryNodes b \<Longrightarrow> ledgerAfterLoop b nodes n = Some (inFlight b n)"
  by (simp add: ledgerAfterLoop_def inFlight_def split: option.splits)

lemma ledgerAfterLoop_all_unreachable:
  "\<forall>n\<in>set nodes. n \<in> unreachableQueryNodes b \<Longrightarrow> ledgerAfterLoop b nodes = executingTaskTotalNQ b"
  by (rule ext) (auto simp: ledgerAfterLoop_def)

lemma pickTarget_all_unreachable:
  "\<forall>n\<in>set nodes. n \<in> U \<Longrightarrow> pickTarget sc U nodes target = target"
  by (induction nodes arbitrary: target) (auto simp: split_paired_all)

text \<open>The call as a whole, in terms of the reduction and of the ledger after the loop.\<close>

lemma SelectNode_result:
  "SelectNode b now nodes cost =
     (case pickTarget (nodeScore b now) (unreachableQueryNodes b) nodes (- 1, MaxFloat64) of
        (t, s) \<Rightarrow>
          if t = - 1
          then (Inl (ServiceUnavailable ''all available nodes are unreachable''),
                b\<lparr>executingTaskTotalNQ := ledgerAfterLoop b nodes\<rparr>)
          else (Inr t, b\<lparr>executingTaskTotalNQ := (ledgerAfterLoop b nodes)(t \<mapsto> inFlight b t + cost)\<rparr>))"
proof -
  obtain t s where pick:
    "pickTarget (nodeScore b now) (unreachableQueryNodes b) nodes (- 1, MaxFloat64) = (t, s)"
    by (cases "pickTarget (nodeScore b now) (unreachableQueryNodes b) nodes (- 1, MaxFloat64)")
  show ?thesis
  proof (cases "t = - 1")
    case True
    with pick show ?thesis by (simp add: SelectNode_def SelectNode_loop_eq)
  next
    case False
    with pickTarget_member [OF pick] have "t \<in> set nodes" "t \<notin> unreachableQueryNodes b"
      by auto
    then have "ledgerAfterLoop b nodes t = Some (inFlight b t)"
      by (rule ledgerAfterLoop_scored)
    with pick False show ?thesis by (simp add: SelectNode_def SelectNode_loop_eq)
  qed
qed

lemma SelectNode_Inr:
  assumes "fst (SelectNode b now nodes cost) = Inr n"
  shows "n \<noteq> - 1" and "n \<in> set nodes" and "n \<notin> unreachableQueryNodes b"
    and "snd (SelectNode b now nodes cost) =
         b\<lparr>executingTaskTotalNQ := (ledgerAfterLoop b nodes)(n \<mapsto> inFlight b n + cost)\<rparr>"
    and "\<exists>s. pickTarget (nodeScore b now) (unreachableQueryNodes b) nodes (- 1, MaxFloat64) = (n, s)"
proof -
  obtain t s where pick:
    "pickTarget (nodeScore b now) (unreachableQueryNodes b) nodes (- 1, MaxFloat64) = (t, s)"
    by (cases "pickTarget (nodeScore b now) (unreachableQueryNodes b) nodes (- 1, MaxFloat64)")
  from assms pick have t: "t \<noteq> - 1" and eq: "n = t"
    by (auto simp: SelectNode_result split: if_splits)
  from t eq show "n \<noteq> - 1" by simp
  from pickTarget_member [OF pick] t eq show "n \<in> set nodes" "n \<notin> unreachableQueryNodes b"
    by auto
  from pick t eq show "snd (SelectNode b now nodes cost) =
         b\<lparr>executingTaskTotalNQ := (ledgerAfterLoop b nodes)(n \<mapsto> inFlight b n + cost)\<rparr>"
    by (simp add: SelectNode_result)
  from pick eq show "\<exists>s. pickTarget (nodeScore b now) (unreachableQueryNodes b) nodes (- 1, MaxFloat64) = (n, s)"
    by blast
qed

lemma SelectNode_returns_minimum:
  assumes "- 1 \<notin> set nodes" and "fst (SelectNode b now nodes cost) = Inr t"
    and "m \<in> set nodes" and "m \<notin> unreachableQueryNodes b"
  shows "nodeScore b now t \<le> nodeScore b now m"
proof -
  from SelectNode_Inr(1,5) [OF assms(2)] obtain s where
    pick: "pickTarget (nodeScore b now) (unreachableQueryNodes b) nodes (- 1, MaxFloat64) = (t, s)"
    and t: "t \<noteq> - 1" by blast
  from pickTarget_first_min [OF assms(1) pick] t
  obtain pre post where split: "nodes = pre @ t # post"
    and pre: "\<forall>m\<in>set pre. m \<notin> unreachableQueryNodes b \<longrightarrow> nodeScore b now t < nodeScore b now m"
    and post: "\<forall>m\<in>set post. m \<notin> unreachableQueryNodes b \<longrightarrow> nodeScore b now t \<le> nodeScore b now m"
    by auto
  from assms(3) split have "m \<in> set pre \<or> m = t \<or> m \<in> set post" by auto
  with assms(4) pre post show ?thesis by force
qed

section \<open>Evaluation on concrete inputs\<close>

lemmas eval_defs = SelectNode_def NewLookAsideBalancer_def calculateScore_def loadOnlyScore_def
  Pow_3_def f64_mul_def f64_add_def f64_sub_def float64_of_int64_def round53_def
  roundHalfEven_def MaxFloat64_def
  workload_def executeSpeed_def isNodeCostMetricsTooOld_def CostMetricsExpireTime_Milliseconds_def
  nodeScore_def inFlight_def CancelWorkload_def exampleBalancer_def idleBalancer_def
  generalScore_def

lemma exampleBalancer_scores:
  "nodeScore exampleBalancer 10000 1 = 50" "nodeScore exampleBalancer 10000 2 = 20"
  "nodeScore exampleBalancer 10000 5 = 27"
  by (simp_all add: eval_defs)

lemma exampleBalancer_select:
  "SelectNode exampleBalancer 10000 [4, 1, 2, 5] 3 =
     (Inr 2, exampleBalancer\<lparr>executingTaskTotalNQ := [5 \<mapsto> 2, 1 \<mapsto> 0, 2 \<mapsto> 3]\<rparr>)"
  by (simp add: eval_defs)

section \<open>The properties\<close>

text \<open>
  C1 (amended). When \<open>availableNodes\<close> does not contain the identifier \<open>-1\<close>, which the code
  reserves for ``no node yet'', and at least one candidate is not in the Unreachability Set,
  \<open>SelectNode\<close> returns the first candidate, in the order of \<open>availableNodes\<close>, whose score is
  strictly smaller than the score of every scored candidate before it and not greater than
  the score of every scored candidate after it. The scored candidates are those outside the
  Unreachability Set.
\<close>

theorem SelectNode_minimum_first:
  assumes "- 1 \<notin> set availableNodes"
    and "\<exists>n\<in>set availableNodes. n \<notin> unreachableQueryNodes b"
  shows "\<exists>pre n post. availableNodes = pre @ n # post
           \<and> fst (SelectNode b now availableNodes cost) = Inr n
           \<and> n \<notin> unreachableQueryNodes b
           \<and> (\<forall>m\<in>set pre. m \<notin> unreachableQueryNodes b \<longrightarrow> nodeScore b now n < nodeScore b now m)
           \<and> (\<forall>m\<in>set post. m \<notin> unreachableQueryNodes b \<longrightarrow> nodeScore b now n \<le> nodeScore b now m)"
proof -
  obtain t s where pick:
    "pickTarget (nodeScore b now) (unreachableQueryNodes b) availableNodes (- 1, MaxFloat64) = (t, s)"
    by (cases "pickTarget (nodeScore b now) (unreachableQueryNodes b) availableNodes (- 1, MaxFloat64)")
  from pickTarget_first_min [OF assms(1) pick] assms(2)
  obtain pre post where split: "availableNodes = pre @ t # post"
    and t: "t \<notin> unreachableQueryNodes b"
    and pre: "\<forall>m\<in>set pre. m \<notin> unreachableQueryNodes b \<longrightarrow> nodeScore b now t < nodeScore b now m"
    and post: "\<forall>m\<in>set post. m \<notin> unreachableQueryNodes b \<longrightarrow> nodeScore b now t \<le> nodeScore b now m"
    by blast
  from split assms(1) have "t \<noteq> - 1" by auto
  with pick have "fst (SelectNode b now availableNodes cost) = Inr t"
    by (simp add: SelectNode_result)
  with split t pre post show ?thesis by blast
qed

theorem SelectNode_minimum_first_witness:
  "- 1 \<notin> set [4, 1, 2, 5 :: int64]
   \<and> (\<exists>n\<in>set [4, 1, 2, 5]. n \<notin> unreachableQueryNodes exampleBalancer)
   \<and> fst (SelectNode exampleBalancer 10000 [4, 1, 2, 5] 3) = Inr 2
   \<and> (\<exists>pre n post. [4, 1, 2, 5] = pre @ n # post
        \<and> fst (SelectNode exampleBalancer 10000 [4, 1, 2, 5] 3) = Inr n
        \<and> n \<notin> unreachableQueryNodes exampleBalancer
        \<and> (\<forall>m\<in>set pre. m \<notin> unreachableQueryNodes exampleBalancer \<longrightarrow>
              nodeScore exampleBalancer 10000 n < nodeScore exampleBalancer 10000 m)
        \<and> (\<forall>m\<in>set post. m \<notin> unreachableQueryNodes exampleBalancer \<longrightarrow>
              nodeScore exampleBalancer 10000 n \<le> nodeScore exampleBalancer 10000 m))"
proof -
  have h1: "- 1 \<notin> set [4, 1, 2, 5 :: int64]" by simp
  have h2: "\<exists>n\<in>set [4, 1, 2, 5]. n \<notin> unreachableQueryNodes exampleBalancer"
    by (simp add: exampleBalancer_def)
  have r: "fst (SelectNode exampleBalancer 10000 [4, 1, 2, 5] 3) = Inr 2"
    by (simp add: exampleBalancer_select)
  from SelectNode_minimum_first [OF h1 h2, of 10000 3] h1 h2 r show ?thesis by blast
qed

text \<open>
  C1 as stated fails on the candidate \<open>-1\<close>: with candidates \<open>[-1, 5]\<close>, both reachable,
  node \<open>-1\<close> idle (score 1) and node 5 with five units in flight (score 216), the call
  returns node 5 although the candidate before it has a strictly smaller score.
\<close>

theorem SelectNode_minimum_first_counterexample:
  "- 1 \<notin> unreachableQueryNodes (NewLookAsideBalancer\<lparr>executingTaskTotalNQ := [5 \<mapsto> 5]\<rparr>)
   \<and> 5 \<notin> unreachableQueryNodes (NewLookAsideBalancer\<lparr>executingTaskTotalNQ := [5 \<mapsto> 5]\<rparr>)
   \<and> fst (SelectNode (NewLookAsideBalancer\<lparr>executingTaskTotalNQ := [5 \<mapsto> 5]\<rparr>) 0 [- 1, 5] 1) = Inr 5
   \<and> nodeScore (NewLookAsideBalancer\<lparr>executingTaskTotalNQ := [5 \<mapsto> 5]\<rparr>) 0 (- 1) = 1
   \<and> nodeScore (NewLookAsideBalancer\<lparr>executingTaskTotalNQ := [5 \<mapsto> 5]\<rparr>) 0 5 = 216"
  by (simp add: eval_defs)

text \<open>
  C2. A node returned by \<open>SelectNode\<close> is a member of \<open>availableNodes\<close> that is not in the
  Unreachability Set, neither when the call starts nor when it returns.
\<close>

theorem SelectNode_never_unreachable:
  assumes "fst (SelectNode b now availableNodes cost) = Inr n"
  shows "n \<in> set availableNodes \<and> n \<notin> unreachableQueryNodes b
         \<and> n \<notin> unreachableQueryNodes (snd (SelectNode b now availableNodes cost))"
  using SelectNode_Inr(2,3,4) [OF assms] by simp

theorem SelectNode_never_unreachable_witness:
  "fst (SelectNode exampleBalancer 10000 [4, 5] 3) = Inr 5
   \<and> 5 \<in> set [4, 5 :: int64]
   \<and> 5 \<notin> unreachableQueryNodes exampleBalancer
   \<and> 5 \<notin> unreachableQueryNodes (snd (SelectNode exampleBalancer 10000 [4, 5] 3))"
proof -
  have h: "fst (SelectNode exampleBalancer 10000 [4, 5] 3) = Inr 5"
    by (simp add: eval_defs)
  from SelectNode_never_unreachable [OF h] h show ?thesis by simp
qed

text \<open>
  C3 (amended). When every element of \<open>availableNodes\<close> is in the Unreachability Set (also
  when the list is empty), \<open>SelectNode\<close> returns the error \<open>ServiceUnavailable\<close> with the
  message ``all available nodes are unreachable'' and leaves the whole state unchanged.
  When \<open>availableNodes\<close> does not contain the identifier \<open>-1\<close>, the call fails if and only
  if no candidate is outside the Unreachability Set.
\<close>

theorem SelectNode_fails_iff:
  "((\<forall>n\<in>set availableNodes. n \<in> unreachableQueryNodes b) \<longrightarrow>
      SelectNode b now availableNodes cost =
        (Inl (ServiceUnavailable ''all available nodes are unreachable''), b))
   \<and> (- 1 \<notin> set availableNodes \<longrightarrow>
        ((\<exists>e. fst (SelectNode b now availableNodes cost) = Inl e) \<longleftrightarrow>
         (\<forall>n\<in>set availableNodes. n \<in> unreachableQueryNodes b)))"
proof (intro conjI impI)
  assume all: "\<forall>n\<in>set availableNodes. n \<in> unreachableQueryNodes b"
  then show "SelectNode b now availableNodes cost =
        (Inl (ServiceUnavailable ''all available nodes are unreachable''), b)"
    by (simp add: SelectNode_result pickTarget_all_unreachable ledgerAfterLoop_all_unreachable)
next
  assume no: "- 1 \<notin> set availableNodes"
  obtain t s where pick:
    "pickTarget (nodeScore b now) (unreachableQueryNodes b) availableNodes (- 1, MaxFloat64) = (t, s)"
    by (cases "pickTarget (nodeScore b now) (unreachableQueryNodes b) availableNodes (- 1, MaxFloat64)")
  have fails: "(\<exists>e. fst (SelectNode b now availableNodes cost) = Inl e) \<longleftrightarrow> t = - 1"
    using pick by (simp add: SelectNode_result)
  have "t = - 1 \<longleftrightarrow> (\<forall>n\<in>set availableNodes. n \<in> unreachableQueryNodes b)"
  proof
    assume "t = - 1"
    with pickTarget_first_min [OF no pick] no show "\<forall>n\<in>set availableNodes. n \<in> unreachableQueryNodes b"
      by auto
  next
    assume "\<forall>n\<in>set availableNodes. n \<in> unreachableQueryNodes b"
    with pick show "t = - 1" by (simp add: pickTarget_all_unreachable)
  qed
  with fails show "(\<exists>e. fst (SelectNode b now availableNodes cost) = Inl e) \<longleftrightarrow>
         (\<forall>n\<in>set availableNodes. n \<in> unreachableQueryNodes b)" by simp
qed

theorem SelectNode_fails_iff_witness:
  "4 \<in> unreachableQueryNodes exampleBalancer
   \<and> SelectNode exampleBalancer 10000 [4, 4] 3 =
       (Inl (ServiceUnavailable ''all available nodes are unreachable''), exampleBalancer)
   \<and> - 1 \<notin> set [4, 1 :: int64]
   \<and> 1 \<notin> unreachableQueryNodes exampleBalancer
   \<and> fst (SelectNode exampleBalancer 10000 [4, 1] 3) \<noteq>
       Inl (ServiceUnavailable ''all available nodes are unreachable'')"
proof -
  have h1: "4 \<in> unreachableQueryNodes exampleBalancer"
    by (simp add: exampleBalancer_def)
  have h2: "- 1 \<notin> set [4, 1 :: int64]" by simp
  have h3: "1 \<notin> unreachableQueryNodes exampleBalancer"
    by (simp add: exampleBalancer_def)
  from SelectNode_fails_iff [of "[4, 4]" exampleBalancer 10000 3] h1
  have a: "SelectNode exampleBalancer 10000 [4, 4] 3 =
       (Inl (ServiceUnavailable ''all available nodes are unreachable''), exampleBalancer)"
    by simp
  from SelectNode_fails_iff [of "[4, 1]" exampleBalancer 10000 3] h2 h3
  have b: "fst (SelectNode exampleBalancer 10000 [4, 1] 3) \<noteq>
       Inl (ServiceUnavailable ''all available nodes are unreachable'')"
    by auto
  from h1 a h2 h3 b show ?thesis by blast
qed

text \<open>
  C3 as stated fails on the candidate \<open>-1\<close>: in a fresh balancer the only candidate \<open>-1\<close> is
  not in the Unreachability Set, yet the call fails, and it has created a counter for the
  node, so the ledger is changed.
\<close>

theorem SelectNode_fails_iff_counterexample:
  "- 1 \<notin> unreachableQueryNodes NewLookAsideBalancer
   \<and> fst (SelectNode NewLookAsideBalancer 0 [- 1] 1) =
       Inl (ServiceUnavailable ''all available nodes are unreachable'')
   \<and> executingTaskTotalNQ NewLookAsideBalancer (- 1) = None
   \<and> executingTaskTotalNQ (snd (SelectNode NewLookAsideBalancer 0 [- 1] 1)) (- 1) = Some 0"
  by (simp add: eval_defs)

text \<open>
  C4 (amended). With the telemetry-expire threshold at 1 s, a node 7 whose cached cost
  aggregation is \<open>{ResponseTime: 0, ServiceTime: 0, TotalNQ: 0}\<close> with a timestamp 2 s in
  the past and in-flight 0 receives the score 1 from the first branch of the score function,
  because its \<open>ResponseTime\<close> is 0; a never-observed node 8 with in-flight 0 receives the
  score 1 from the same branch; and \<open>SelectNode\<close> over the candidates \<open>[8, 7]\<close> returns 8,
  the first of the two.
\<close>

theorem idle_scenario:
  assumes "metricsMap b 7 = Some (Some \<lparr>ResponseTime = 0, ServiceTime = 0, TotalNQ = 0\<rparr>)"
    and "metricsUpdateTs b 7 = Some (now - 2000)"
    and "inFlight b 7 = 0"
    and "metricsMap b 8 = None" and "metricsUpdateTs b 8 = None" and "inFlight b 8 = 0"
    and "7 \<notin> unreachableQueryNodes b" and "8 \<notin> unreachableQueryNodes b"
  shows "nodeScore b now 7 = 1 \<and> nodeScore b now 8 = 1
         \<and> fst (SelectNode b now [8, 7] cost) = Inr 8"
proof -
  from assms(1,3) have s7: "nodeScore b now 7 = 1"
    by (simp add: nodeScore_def calculateScore_def loadOnlyScore_0)
  from assms(4,6) have s8: "nodeScore b now 8 = 1"
    by (simp add: nodeScore_def calculateScore_def loadOnlyScore_0)
  from assms(7,8) s7 s8 have "fst (SelectNode b now [8, 7] cost) = Inr 8"
    by (simp add: SelectNode_result)
  with s7 s8 show ?thesis by simp
qed

theorem idle_scenario_witness:
  "metricsMap idleBalancer 7 = Some (Some \<lparr>ResponseTime = 0, ServiceTime = 0, TotalNQ = 0\<rparr>)
   \<and> metricsUpdateTs idleBalancer 7 = Some (10000 - 2000)
   \<and> inFlight idleBalancer 7 = 0
   \<and> metricsMap idleBalancer 8 = None \<and> metricsUpdateTs idleBalancer 8 = None
   \<and> inFlight idleBalancer 8 = 0
   \<and> 7 \<notin> unreachableQueryNodes idleBalancer \<and> 8 \<notin> unreachableQueryNodes idleBalancer
   \<and> nodeScore idleBalancer 10000 7 = 1 \<and> nodeScore idleBalancer 10000 8 = 1
   \<and> fst (SelectNode idleBalancer 10000 [8, 7] 1) = Inr 8"
proof -
  have h: "metricsMap idleBalancer 7 = Some (Some \<lparr>ResponseTime = 0, ServiceTime = 0, TotalNQ = 0\<rparr>)"
    "metricsUpdateTs idleBalancer 7 = Some (10000 - 2000)"
    "inFlight idleBalancer 7 = 0"
    "metricsMap idleBalancer 8 = None" "metricsUpdateTs idleBalancer 8 = None"
    "inFlight idleBalancer 8 = 0"
    "7 \<notin> unreachableQueryNodes idleBalancer" "8 \<notin> unreachableQueryNodes idleBalancer"
    by (simp_all add: idleBalancer_def inFlight_def)
  from idle_scenario [OF h, of 1] h show ?thesis by simp
qed

text \<open>
  C4 as stated fails: in the state of the scenario the score of node 7 is 1, not 0, and
  \<open>SelectNode\<close> over \<open>[8, 7]\<close> returns 8, not 7. The timestamp of node 7 is indeed too old,
  but the score function never asks, since \<open>ResponseTime = 0\<close> is answered first.
\<close>

theorem idle_scenario_counterexample:
  "isNodeCostMetricsTooOld idleBalancer 10000 7
   \<and> calculateScore idleBalancer 10000 7
        (Some \<lparr>ResponseTime = 0, ServiceTime = 0, TotalNQ = 0\<rparr>) 0 \<noteq> 0
   \<and> nodeScore idleBalancer 10000 7 = 1
   \<and> fst (SelectNode idleBalancer 10000 [8, 7] 1) \<noteq> Inr 7"
  by (simp add: eval_defs)

text \<open>
  C5. A successful \<open>SelectNode\<close> that returns node \<open>n\<close> for the cost \<open>c\<close> leaves the counter of
  \<open>n\<close> at its former value plus \<open>c\<close> (a missing counter counts as 0), and \<open>CancelWorkload\<close>
  of \<open>n\<close> and \<open>c\<close> right after it brings the counter back to the former value. The additions
  are those of \<open>int64\<close>, so this holds with wrap-around too.
\<close>

theorem SelectNode_CancelWorkload_round_trip:
  assumes "SelectNode b now availableNodes c = (Inr n, b')"
  shows "executingTaskTotalNQ b' n = Some (inFlight b n + c)
         \<and> inFlight b' n = inFlight b n + c
         \<and> inFlight (CancelWorkload b' n c) n = inFlight b n"
proof -
  from assms have "fst (SelectNode b now availableNodes c) = Inr n"
    and "b' = snd (SelectNode b now availableNodes c)" by simp_all
  with SelectNode_Inr(4) [of b now availableNodes c n]
  have "b' = b\<lparr>executingTaskTotalNQ := (ledgerAfterLoop b availableNodes)(n \<mapsto> inFlight b n + c)\<rparr>"
    by simp
  then show ?thesis by (simp add: inFlight_def CancelWorkload_def)
qed

theorem SelectNode_CancelWorkload_round_trip_witness:
  "SelectNode exampleBalancer 10000 [4, 5] 3 =
     (Inr 5, exampleBalancer\<lparr>executingTaskTotalNQ := [5 \<mapsto> 5]\<rparr>)
   \<and> inFlight exampleBalancer 5 = 2
   \<and> executingTaskTotalNQ (exampleBalancer\<lparr>executingTaskTotalNQ := [5 \<mapsto> 5]\<rparr>) 5 = Some (2 + 3)
   \<and> inFlight (CancelWorkload (exampleBalancer\<lparr>executingTaskTotalNQ := [5 \<mapsto> 5]\<rparr>) 5 3) 5 = 2"
proof -
  have h: "SelectNode exampleBalancer 10000 [4, 5] 3 =
     (Inr 5, exampleBalancer\<lparr>executingTaskTotalNQ := [5 \<mapsto> 5]\<rparr>)"
    by (simp add: eval_defs)
  have v: "inFlight exampleBalancer 5 = 2"
    by (simp add: inFlight_def exampleBalancer_def)
  from SelectNode_CancelWorkload_round_trip [OF h] h v show ?thesis by simp
qed

text \<open>
  C6 (amended). Fix a cost aggregation with a positive \<open>ServiceTime\<close> and two in-flight
  values \<open>k1 < k2\<close> at which the general branch of the score function applies, with
  \<open>0 \<le> 1 + TotalNQ + k1\<close>. Then the score at \<open>k1\<close> is not greater than the score at \<open>k2\<close>
  (when \<open>1 + TotalNQ + k2\<close> leaves \<open>int64\<close>, the score at \<open>k2\<close> is \<open>math.MaxFloat64\<close>); and
  it is strictly smaller when \<open>1 + TotalNQ + k2\<close> is at most \<open>2^49\<close> and \<open>ServiceTime\<close> and
  the magnitude of \<open>ResponseTime\<close> are below \<open>2^51\<close>.
\<close>

theorem score_increasing_in_inflight:
  assumes "ResponseTime c \<noteq> 0" and "0 < sint (ServiceTime c)"
    and "\<not> (k1 = 0 \<and> TotalNQ c = 0 \<and> isNodeCostMetricsTooOld b now node)"
    and "\<not> (k2 = 0 \<and> TotalNQ c = 0 \<and> isNodeCostMetricsTooOld b now node)"
    and "sint k1 < sint k2"
    and "0 \<le> 1 + sint (TotalNQ c) + sint k1"
  shows "calculateScore b now node (Some c) k1 \<le> calculateScore b now node (Some c) k2
         \<and> (1 + sint (TotalNQ c) + sint k2 \<le> 2 ^ 49
              \<and> sint (ServiceTime c) < 2 ^ 51 \<and> \<bar>sint (ResponseTime c)\<bar> < 2 ^ 51
              \<longrightarrow> calculateScore b now node (Some c) k1 < calculateScore b now node (Some c) k2)"
proof -
  let ?B1 = "1 + sint (TotalNQ c) + sint k1"
  let ?B2 = "1 + sint (TotalNQ c) + sint k2"
  from assms(2) have st: "ServiceTime c \<noteq> 0" by auto
  have g: "calculateScore b now node (Some c) k1 = generalScore c k1"
    "calculateScore b now node (Some c) k2 = generalScore c k2"
    by (rule calculateScore_general [OF assms(1) st assms(3)])
       (rule calculateScore_general [OF assms(1) st assms(4)])
  from assms(5) have lt: "?B1 < ?B2" by simp
  have weak: "generalScore c k1 \<le> generalScore c k2"
  proof (cases "?B2 < 2 ^ 63")
    case True
    with assms(6) lt have "sint (1 + TotalNQ c + k1) = ?B1" "sint (1 + TotalNQ c + k2) = ?B2"
      by (simp_all add: sint64_sum)
    with assms(2,6) lt show ?thesis by (intro generalScore_mono) simp_all
  next
    case False
    moreover from sint64_bounds(2) [of "TotalNQ c"] sint64_bounds(2) [of k2]
    have "?B2 < 2 ^ 64" by simp
    ultimately have "sint (1 + TotalNQ c + k2) < 0"
      by (intro sint64_sum_wrapped) simp_all
    then have "workload c k2 < 0" using assms(2) by (rule workload_negative)
    then have "generalScore c k2 = MaxFloat64" by (simp add: generalScore_def)
    with generalScore_le_MaxFloat64 [of c k1] show ?thesis by simp
  qed
  have strict: "generalScore c k1 < generalScore c k2"
    if B: "?B2 \<le> 2 ^ 49" and S: "sint (ServiceTime c) < 2 ^ 51"
      and R: "\<bar>sint (ResponseTime c)\<bar> < 2 ^ 51"
  proof -
    from B assms(6) lt have "sint (1 + TotalNQ c + k1) = ?B1" "sint (1 + TotalNQ c + k2) = ?B2"
      by (simp_all add: sint64_sum)
    with assms(2,6) lt B S R show ?thesis by (intro generalScore_strict) simp_all
  qed
  from weak strict show ?thesis by (simp add: g)
qed

theorem score_increasing_in_inflight_witness:
  "ResponseTime \<lparr>ResponseTime = 1500, ServiceTime = 1000, TotalNQ = 20000\<rparr> \<noteq> 0
   \<and> 0 < sint (ServiceTime \<lparr>ResponseTime = 1500, ServiceTime = 1000, TotalNQ = 20000\<rparr>)
   \<and> sint (20000 :: int64) < sint (20001 :: int64)
   \<and> calculateScore exampleBalancer 10000 1
        (Some \<lparr>ResponseTime = 1500, ServiceTime = 1000, TotalNQ = 20000\<rparr>) 20000
      < calculateScore exampleBalancer 10000 1
        (Some \<lparr>ResponseTime = 1500, ServiceTime = 1000, TotalNQ = 20000\<rparr>) 20001"
proof -
  let ?c = "\<lparr>ResponseTime = 1500, ServiceTime = 1000, TotalNQ = 20000 :: int64\<rparr>"
  have h: "ResponseTime ?c \<noteq> 0" "0 < sint (ServiceTime ?c)"
    "\<not> (20000 = (0 :: int64) \<and> TotalNQ ?c = 0 \<and> isNodeCostMetricsTooOld exampleBalancer 10000 1)"
    "\<not> (20001 = (0 :: int64) \<and> TotalNQ ?c = 0 \<and> isNodeCostMetricsTooOld exampleBalancer 10000 1)"
    "sint (20000 :: int64) < sint (20001 :: int64)"
    "0 \<le> 1 + sint (TotalNQ ?c) + sint (20000 :: int64)"
    by simp_all
  have range: "1 + sint (TotalNQ ?c) + sint (20001 :: int64) \<le> 2 ^ 49
     \<and> sint (ServiceTime ?c) < 2 ^ 51 \<and> \<bar>sint (ResponseTime ?c)\<bar> < 2 ^ 51"
    by simp
  from score_increasing_in_inflight [OF h] range h(1,2,5) show ?thesis by blast
qed

text \<open>
  C6 as stated fails in several ways. With a negative in-flight value, which \<open>CancelWorkload\<close>
  produces when it is called for a node whose counter is 0, the workload term is negative and
  the score is \<open>math.MaxFloat64\<close>: for the aggregation \<open>{50, 10, 0}\<close> the score at \<open>-5\<close> is
  above the score 50 at 0. With a large \<open>ResponseTime\<close> the sum is rounded: for the
  aggregation \<open>{2^62, 1, 0}\<close> the scores at in-flight 0 and 1 are both \<open>2^62\<close>. With a negative
  \<open>ServiceTime\<close> the workload term is negative at every positive base: for \<open>{50, -10, 0}\<close> the
  scores at 1 and 2 are both \<open>math.MaxFloat64\<close>. With a large queue the conversion of the base
  is rounded: for \<open>{50, 10, 2^53 - 1}\<close> the bases \<open>2^53\<close> and \<open>2^53 + 1\<close> at in-flight 0 and 1
  are the same \<open>float64\<close>, and so are the scores.
\<close>

theorem score_increasing_in_inflight_counterexample:
  "\<not> isNodeCostMetricsTooOld exampleBalancer 10000 1
   \<and> inFlight (CancelWorkload (exampleBalancer\<lparr>executingTaskTotalNQ := [1 \<mapsto> 0]\<rparr>) 1 5) 1 = - 5
   \<and> sint (- 5 :: int64) < sint (0 :: int64)
   \<and> calculateScore exampleBalancer 10000 1
        (Some \<lparr>ResponseTime = 50, ServiceTime = 10, TotalNQ = 0\<rparr>) (- 5) = MaxFloat64
   \<and> calculateScore exampleBalancer 10000 1
        (Some \<lparr>ResponseTime = 50, ServiceTime = 10, TotalNQ = 0\<rparr>) 0 = 50
   \<and> 50 < MaxFloat64
   \<and> calculateScore exampleBalancer 10000 1
        (Some \<lparr>ResponseTime = 2 ^ 62, ServiceTime = 1, TotalNQ = 0\<rparr>) 0 = 2 ^ 62
   \<and> calculateScore exampleBalancer 10000 1
        (Some \<lparr>ResponseTime = 2 ^ 62, ServiceTime = 1, TotalNQ = 0\<rparr>) 1 = 2 ^ 62
   \<and> calculateScore exampleBalancer 10000 1
        (Some \<lparr>ResponseTime = 50, ServiceTime = - 10, TotalNQ = 0\<rparr>) 1 = MaxFloat64
   \<and> calculateScore exampleBalancer 10000 1
        (Some \<lparr>ResponseTime = 50, ServiceTime = - 10, TotalNQ = 0\<rparr>) 2 = MaxFloat64
   \<and> float64_of_int64 (1 + (2 ^ 53 - 1) + 0) = 2 ^ 53
   \<and> float64_of_int64 (1 + (2 ^ 53 - 1) + 1) = 2 ^ 53
   \<and> calculateScore exampleBalancer 10000 1
        (Some \<lparr>ResponseTime = 50, ServiceTime = 10, TotalNQ = 2 ^ 53 - 1\<rparr>) 0
      = calculateScore exampleBalancer 10000 1
        (Some \<lparr>ResponseTime = 50, ServiceTime = 10, TotalNQ = 2 ^ 53 - 1\<rparr>) 1"
  by code_simp

text \<open>
  C7 (amended). In the general branch of the score function, a negative workload term gives
  the score \<open>math.MaxFloat64\<close>, the largest finite \<open>float64\<close>, and no score is above it. A
  node that reports \<open>TotalNQ = 2^62\<close> and \<open>ServiceTime = 2^20\<close> with a \<open>ResponseTime\<close> other
  than 0 and has a non-negative in-flight value has a score of at least \<open>2^205\<close>: its workload
  term is positive, unless \<open>1 + TotalNQ + inflight\<close> wraps around. \<open>SelectNode\<close>, when no
  candidate is \<open>-1\<close>, does not return this node if some reachable candidate has a score below
  \<open>2^205\<close>.
\<close>

theorem overflow_guard:
  "(ResponseTime c \<noteq> 0 \<and> ServiceTime c \<noteq> 0
      \<and> \<not> (k = 0 \<and> TotalNQ c = 0 \<and> isNodeCostMetricsTooOld b now node)
      \<and> workload c k < 0
     \<longrightarrow> calculateScore b now node (Some c) k = MaxFloat64)
   \<and> calculateScore b now node cost k \<le> MaxFloat64
   \<and> (metricsMap b n = Some (Some g) \<and> ResponseTime g \<noteq> 0 \<and> ServiceTime g = 2 ^ 20
        \<and> TotalNQ g = 2 ^ 62 \<and> 0 \<le> sint (inFlight b n)
       \<longrightarrow> 2 ^ 205 \<le> nodeScore b now n
          \<and> (- 1 \<notin> set availableNodes \<and> m \<in> set availableNodes
              \<and> m \<notin> unreachableQueryNodes b \<and> nodeScore b now m < 2 ^ 205
             \<longrightarrow> fst (SelectNode b now availableNodes cost') \<noteq> Inr n))"
proof (intro conjI impI)
  assume "ResponseTime c \<noteq> 0 \<and> ServiceTime c \<noteq> 0
      \<and> \<not> (k = 0 \<and> TotalNQ c = 0 \<and> isNodeCostMetricsTooOld b now node)
      \<and> workload c k < 0"
  then show "calculateScore b now node (Some c) k = MaxFloat64"
    by (simp add: calculateScore_general generalScore_def)
next
  show "calculateScore b now node cost k \<le> MaxFloat64"
    by (rule calculateScore_le_MaxFloat64)
next
  assume g: "metricsMap b n = Some (Some g) \<and> ResponseTime g \<noteq> 0 \<and> ServiceTime g = 2 ^ 20
        \<and> TotalNQ g = 2 ^ 62 \<and> 0 \<le> sint (inFlight b n)"
  then have "nodeScore b now n = calculateScore b now n (Some g) (inFlight b n)"
    by (simp add: nodeScore_def)
  moreover from g have "2 ^ 205 \<le> calculateScore b now n (Some g) (inFlight b n)"
    by (intro huge_queue_score) blast+
  ultimately show big: "2 ^ 205 \<le> nodeScore b now n" by (simp only:)
  assume m: "- 1 \<notin> set availableNodes \<and> m \<in> set availableNodes
              \<and> m \<notin> unreachableQueryNodes b \<and> nodeScore b now m < 2 ^ 205"
  show "fst (SelectNode b now availableNodes cost') \<noteq> Inr n"
  proof
    assume "fst (SelectNode b now availableNodes cost') = Inr n"
    with m have "nodeScore b now n \<le> nodeScore b now m"
      by (intro SelectNode_returns_minimum [of availableNodes b now cost']) simp_all
    with big m show False by linarith
  qed
qed

theorem overflow_guard_witness:
  "workload \<lparr>ResponseTime = 50, ServiceTime = 10, TotalNQ = 0\<rparr> (- 5) < 0
   \<and> calculateScore exampleBalancer 10000 1
        (Some \<lparr>ResponseTime = 50, ServiceTime = 10, TotalNQ = 0\<rparr>) (- 5) = MaxFloat64
   \<and> metricsMap (overflowBalancer 30) 9 =
        Some (Some \<lparr>ResponseTime = 30, ServiceTime = 2 ^ 20, TotalNQ = 2 ^ 62\<rparr>)
   \<and> 0 \<le> sint (inFlight (overflowBalancer 30) 9)
   \<and> nodeScore (overflowBalancer 30) 10000 1 < 2 ^ 205
   \<and> 2 ^ 205 \<le> nodeScore (overflowBalancer 30) 10000 9
   \<and> fst (SelectNode (overflowBalancer 30) 10000 [9, 1] 1) \<noteq> Inr 9"
proof -
  let ?c = "\<lparr>ResponseTime = 50, ServiceTime = 10, TotalNQ = 0\<rparr>"
  let ?g = "\<lparr>ResponseTime = 30, ServiceTime = 2 ^ 20, TotalNQ = 2 ^ 62 :: int64\<rparr>"
  have w: "workload ?c (- 5) < 0"
    by (simp add: eval_defs)
  have h1: "ResponseTime ?c \<noteq> 0 \<and> ServiceTime ?c \<noteq> 0
      \<and> \<not> (- 5 = (0 :: int64) \<and> TotalNQ ?c = 0 \<and> isNodeCostMetricsTooOld exampleBalancer 10000 1)
      \<and> workload ?c (- 5) < 0"
    using w by simp
  have h2: "metricsMap (overflowBalancer 30) 9 = Some (Some ?g) \<and> ResponseTime ?g \<noteq> 0
      \<and> ServiceTime ?g = 2 ^ 20 \<and> TotalNQ ?g = 2 ^ 62
      \<and> 0 \<le> sint (inFlight (overflowBalancer 30) 9)"
    by (simp add: overflowBalancer_def inFlight_def)
  have h3: "- 1 \<notin> set [9, 1 :: int64] \<and> 1 \<in> set [9, 1 :: int64]
      \<and> 1 \<notin> unreachableQueryNodes (overflowBalancer 30)
      \<and> nodeScore (overflowBalancer 30) 10000 1 < 2 ^ 205"
    by (simp add: overflowBalancer_def eval_defs)
  from overflow_guard [of ?c "- 5" exampleBalancer 10000 1 "Some ?c" 9 ?g "[9, 1]" 1 1] h1
  have a: "calculateScore exampleBalancer 10000 1 (Some ?c) (- 5) = MaxFloat64"
    by blast
  from overflow_guard [of ?c "- 5" "overflowBalancer 30" 10000 1 "Some ?c" 9 ?g "[9, 1]" 1 1] h2 h3
  have b: "2 ^ 205 \<le> nodeScore (overflowBalancer 30) 10000 9
      \<and> fst (SelectNode (overflowBalancer 30) 10000 [9, 1] 1) \<noteq> Inr 9"
    by blast
  from w a h2 h3 b show ?thesis by blast
qed

text \<open>
  C7 as stated fails. When the node reports \<open>ResponseTime = 0\<close> beside \<open>TotalNQ = 2^62\<close> and
  \<open>ServiceTime = 2^20\<close>, the first branch of the score function gives it the score 1 and
  \<open>SelectNode\<close> prefers it to node 1 with the score 50. When it reports the
  \<open>ResponseTime\<close> 30, its workload term is \<open>2^206\<close>, which is not negative, and its score is
  \<open>2^206\<close>, not \<open>math.MaxFloat64\<close>.
\<close>

theorem overflow_guard_counterexample:
  "nodeScore (overflowBalancer 0) 10000 1 = 50
   \<and> nodeScore (overflowBalancer 0) 10000 9 = 1
   \<and> fst (SelectNode (overflowBalancer 0) 10000 [1, 9] 1) = Inr 9
   \<and> workload \<lparr>ResponseTime = 30, ServiceTime = 2 ^ 20, TotalNQ = 2 ^ 62\<rparr> 0 = 2 ^ 206
   \<and> nodeScore (overflowBalancer 30) 10000 9 = 2 ^ 206
   \<and> nodeScore (overflowBalancer 30) 10000 9 \<noteq> MaxFloat64"
  by code_simp

text \<open>
  C8. For a node with a recorded timestamp other than 0, the telemetry-too-old predicate is
  the \<open>int64\<close> comparison \<open>now - lastUpdateTs > 1000\<close>; for timestamps and clock readings
  that are not negative this is the comparison of the integers. For a node with no recorded
  timestamp, or with the timestamp 0, the predicate is false, and the score is what the first
  branch and the last lines of the score function give: the idle-shortcut is not taken.
\<close>

theorem too_old_predicate:
  "(metricsUpdateTs b node = Some ts \<and> ts \<noteq> 0 \<longrightarrow>
      (isNodeCostMetricsTooOld b now node \<longleftrightarrow> 1000 < sint (now - ts))
      \<and> (0 \<le> sint ts \<and> 0 \<le> sint now \<longrightarrow>
           (isNodeCostMetricsTooOld b now node \<longleftrightarrow> 1000 < sint now - sint ts)))
   \<and> (metricsUpdateTs b node = None \<or> metricsUpdateTs b node = Some 0 \<longrightarrow>
        \<not> isNodeCostMetricsTooOld b now node
        \<and> calculateScore b now node cost executingNQ =
            (case cost of
               None \<Rightarrow> loadOnlyScore executingNQ
             | Some c \<Rightarrow>
                 if ResponseTime c = 0 \<or> ServiceTime c = 0 then loadOnlyScore executingNQ
                 else generalScore c executingNQ))"
proof (intro conjI impI)
  assume a: "metricsUpdateTs b node = Some ts \<and> ts \<noteq> 0"
  then show "isNodeCostMetricsTooOld b now node \<longleftrightarrow> 1000 < sint (now - ts)"
    by (simp add: isNodeCostMetricsTooOld_def CostMetricsExpireTime_Milliseconds_def)
  assume nn: "0 \<le> sint ts \<and> 0 \<le> sint now"
  with sint64_bounds(2) [of ts] sint64_bounds(2) [of now]
  have "sint (now - ts) = sint now - sint ts"
    by (intro sint64_diff) linarith+
  with a show "isNodeCostMetricsTooOld b now node \<longleftrightarrow> 1000 < sint now - sint ts"
    by (simp add: isNodeCostMetricsTooOld_def CostMetricsExpireTime_Milliseconds_def)
next
  assume "metricsUpdateTs b node = None \<or> metricsUpdateTs b node = Some 0"
  then show "\<not> isNodeCostMetricsTooOld b now node"
    by (auto simp: isNodeCostMetricsTooOld_def)
  then show "calculateScore b now node cost executingNQ =
            (case cost of
               None \<Rightarrow> loadOnlyScore executingNQ
             | Some c \<Rightarrow>
                 if ResponseTime c = 0 \<or> ServiceTime c = 0 then loadOnlyScore executingNQ
                 else generalScore c executingNQ)"
    by (simp add: calculateScore_def generalScore_def split: option.splits)
qed

theorem too_old_predicate_witness:
  "metricsUpdateTs exampleBalancer 1 = Some 9900 \<and> (9900 :: int64) \<noteq> 0
   \<and> 0 \<le> sint (9900 :: int64) \<and> 0 \<le> sint (12000 :: int64)
   \<and> isNodeCostMetricsTooOld exampleBalancer 12000 1
   \<and> 1000 < sint (12000 :: int64) - sint (9900 :: int64)
   \<and> metricsUpdateTs exampleBalancer 5 = None
   \<and> \<not> isNodeCostMetricsTooOld exampleBalancer 12000 5
   \<and> calculateScore exampleBalancer 12000 5
        (Some \<lparr>ResponseTime = 50, ServiceTime = 10, TotalNQ = 0\<rparr>) 0 =
      generalScore \<lparr>ResponseTime = 50, ServiceTime = 10, TotalNQ = 0\<rparr> 0"
proof -
  have h1: "metricsUpdateTs exampleBalancer 1 = Some 9900 \<and> (9900 :: int64) \<noteq> 0"
    by (simp add: exampleBalancer_def)
  have h2: "0 \<le> sint (9900 :: int64) \<and> 0 \<le> sint (12000 :: int64)" by simp
  have h3: "metricsUpdateTs exampleBalancer 5 = None"
    by (simp add: exampleBalancer_def)
  from too_old_predicate [of exampleBalancer 1 9900 12000] h1 h2
  have a: "isNodeCostMetricsTooOld exampleBalancer 12000 1"
    by simp
  from too_old_predicate [of exampleBalancer 5 0 12000
      "Some \<lparr>ResponseTime = 50, ServiceTime = 10, TotalNQ = 0\<rparr>" 0] h3
  have b: "\<not> isNodeCostMetricsTooOld exampleBalancer 12000 5
     \<and> calculateScore exampleBalancer 12000 5
        (Some \<lparr>ResponseTime = 50, ServiceTime = 10, TotalNQ = 0\<rparr>) 0 =
      generalScore \<lparr>ResponseTime = 50, ServiceTime = 10, TotalNQ = 0\<rparr> 0"
    by simp
  from h1 h2 h3 a b show ?thesis by simp
qed

text \<open>
  C9. A health probe of a node inserts the node into the Unreachability Set, and changes
  nothing else, if and only if obtaining the client fails, or \<open>GetComponentStates\<close> returns
  an error, or the state code of the reply is not \<open>Healthy\<close>; the node is then in the set.
  Otherwise the probe sets the timestamp of the node to the current time and removes the node
  from the Unreachability Set.
\<close>

theorem health_probe:
  "(node \<in> unreachableQueryNodes (checkQueryNodeHealth b node client tnow) \<longleftrightarrow>
      (\<exists>err. client = Inl err) \<or> (\<exists>err. client = Inr (Inl err))
      \<or> (\<exists>code. client = Inr (Inr code) \<and> code \<noteq> Healthy))
   \<and> ((\<exists>err. client = Inl err) \<or> (\<exists>err. client = Inr (Inl err))
        \<or> (\<exists>code. client = Inr (Inr code) \<and> code \<noteq> Healthy) \<longrightarrow>
        checkQueryNodeHealth b node client tnow =
          b\<lparr>unreachableQueryNodes := insert node (unreachableQueryNodes b)\<rparr>)
   \<and> (client = Inr (Inr Healthy) \<longrightarrow>
        checkQueryNodeHealth b node client tnow =
          b\<lparr>metricsUpdateTs := (metricsUpdateTs b)(node \<mapsto> tnow),
            unreachableQueryNodes := unreachableQueryNodes b - {node}\<rparr>)"
proof (cases client)
  case (Inl err)
  then show ?thesis by (simp add: checkQueryNodeHealth_def setUnreachable_def)
next
  case (Inr qn)
  show ?thesis
  proof (cases qn)
    case (Inl err)
    with Inr show ?thesis by (simp add: checkQueryNodeHealth_def setUnreachable_def)
  next
    case inner: (Inr code)
    with Inr show ?thesis
      by (cases "code = Healthy") (simp_all add: checkQueryNodeHealth_def setUnreachable_def)
  qed
qed

theorem health_probe_witness:
  "checkQueryNodeHealth exampleBalancer 1 (Inl ''no client'') 12000 =
     exampleBalancer\<lparr>unreachableQueryNodes := insert 1 (unreachableQueryNodes exampleBalancer)\<rparr>
   \<and> 1 \<in> unreachableQueryNodes (checkQueryNodeHealth exampleBalancer 1 (Inl ''no client'') 12000)
   \<and> checkQueryNodeHealth exampleBalancer 4 (Inr (Inr Healthy)) 12000 =
       exampleBalancer\<lparr>metricsUpdateTs := (metricsUpdateTs exampleBalancer)(4 \<mapsto> 12000),
         unreachableQueryNodes := unreachableQueryNodes exampleBalancer - {4}\<rparr>
   \<and> 4 \<notin> unreachableQueryNodes (checkQueryNodeHealth exampleBalancer 4 (Inr (Inr Healthy)) 12000)"
proof -
  from health_probe [of 1 exampleBalancer "Inl ''no client''" 12000]
  have a: "checkQueryNodeHealth exampleBalancer 1 (Inl ''no client'') 12000 =
     exampleBalancer\<lparr>unreachableQueryNodes := insert 1 (unreachableQueryNodes exampleBalancer)\<rparr>
   \<and> 1 \<in> unreachableQueryNodes (checkQueryNodeHealth exampleBalancer 1 (Inl ''no client'') 12000)"
    by simp
  from health_probe [of 4 exampleBalancer "Inr (Inr Healthy)" 12000]
  have b: "checkQueryNodeHealth exampleBalancer 4 (Inr (Inr Healthy)) 12000 =
       exampleBalancer\<lparr>metricsUpdateTs := (metricsUpdateTs exampleBalancer)(4 \<mapsto> 12000),
         unreachableQueryNodes := unreachableQueryNodes exampleBalancer - {4}\<rparr>
   \<and> 4 \<notin> unreachableQueryNodes (checkQueryNodeHealth exampleBalancer 4 (Inr (Inr Healthy)) 12000)"
    by simp
  from a b show ?thesis by simp
qed

text \<open>
  C10. A successful \<open>SelectNode\<close> leaves the telemetry cache, the timestamps and the
  Unreachability Set as they were. For every node other than the returned one the value of
  the in-flight counter is unchanged: its ledger entry is the same, or it had none, is a
  reachable candidate, and has the entry 0 afterwards.
\<close>

theorem SelectNode_frame:
  assumes "SelectNode b now availableNodes c = (Inr n, b')"
  shows "metricsMap b' = metricsMap b \<and> metricsUpdateTs b' = metricsUpdateTs b
         \<and> unreachableQueryNodes b' = unreachableQueryNodes b
         \<and> (\<forall>m. m \<noteq> n \<longrightarrow>
               inFlight b' m = inFlight b m
               \<and> (executingTaskTotalNQ b' m = executingTaskTotalNQ b m
                  \<or> (executingTaskTotalNQ b m = None \<and> executingTaskTotalNQ b' m = Some 0
                     \<and> m \<in> set availableNodes \<and> m \<notin> unreachableQueryNodes b)))"
proof -
  from assms have "fst (SelectNode b now availableNodes c) = Inr n"
    and "b' = snd (SelectNode b now availableNodes c)" by simp_all
  with SelectNode_Inr(4) [of b now availableNodes c n]
  have "b' = b\<lparr>executingTaskTotalNQ := (ledgerAfterLoop b availableNodes)(n \<mapsto> inFlight b n + c)\<rparr>"
    by simp
  then show ?thesis by (auto simp: inFlight_def ledgerAfterLoop_def)
qed

theorem SelectNode_frame_witness:
  "SelectNode exampleBalancer 10000 [4, 1, 2, 5] 3 =
     (Inr 2, exampleBalancer\<lparr>executingTaskTotalNQ := [5 \<mapsto> 2, 1 \<mapsto> 0, 2 \<mapsto> 3]\<rparr>)
   \<and> (1::int64) \<noteq> 2
   \<and> executingTaskTotalNQ exampleBalancer 1 = None
   \<and> executingTaskTotalNQ (exampleBalancer\<lparr>executingTaskTotalNQ := [5 \<mapsto> 2, 1 \<mapsto> 0, 2 \<mapsto> 3]\<rparr>) 1 = Some 0
   \<and> inFlight (exampleBalancer\<lparr>executingTaskTotalNQ := [5 \<mapsto> 2, 1 \<mapsto> 0, 2 \<mapsto> 3]\<rparr>) 1 = inFlight exampleBalancer 1
   \<and> 1 \<in> set [4, 1, 2, 5 :: int64] \<and> 1 \<notin> unreachableQueryNodes exampleBalancer"
proof -
  have h: "SelectNode exampleBalancer 10000 [4, 1, 2, 5] 3 =
     (Inr 2, exampleBalancer\<lparr>executingTaskTotalNQ := [5 \<mapsto> 2, 1 \<mapsto> 0, 2 \<mapsto> 3]\<rparr>)"
    by (rule exampleBalancer_select)
  have n: "(1::int64) \<noteq> 2" by simp
  have e: "executingTaskTotalNQ exampleBalancer 1 = None"
    by (simp add: exampleBalancer_def)
  from SelectNode_frame [OF h, THEN conjunct2, THEN conjunct2, THEN conjunct2, THEN spec, of 1]
    n e h show ?thesis by simp
qed

end
